theory Spec2Isabelle
  imports Main "HOL-Library.Signed_Division" "HOL-Library.Multiset"
begin

section \<open>Go values shared by the firehose handler and the model indexer\<close>

text \<open>
  Go error values.  The sentinels \<open>publish.ErrChannelClosed\<close>, \<open>publish.ErrFull\<close>,
  \<open>modelindexer.ErrClosed\<close> and the two context errors are compared by identity in the
  source, so each is a constructor of its own; every other error is \<open>ErrorString\<close> with its
  message.
\<close>

datatype error =
    ErrChannelClosed
  | ErrFull
  | ErrClosed
  | Canceled
  | DeadlineExceeded
  | ErrorString string

text \<open>\<open>time.Time\<close>: the zero value, or \<open>time.Unix sec nsec\<close>.\<close>

datatype Time = ZeroTime | Unix int int

text \<open>The processor kinds of \<open>model.APMEvent\<close>; \<open>NoProcessor\<close> is the zero value.\<close>

datatype Processor =
    NoProcessor
  | TransactionProcessor
  | SpanProcessor
  | ErrorProcessor
  | MetricsetProcessor
  | LogProcessor

record DataStream =
  DataStream_Type :: string
  DataStream_Dataset :: string
  DataStream_Namespace :: string

record CloudOrigin =
  CloudOrigin_AccountID :: string
  CloudOrigin_Region :: string

record ServiceOrigin =
  ServiceOrigin_ID :: string
  ServiceOrigin_Name :: string

text \<open>
  The fields of \<open>model.APMEvent\<close> that the sources read or write.  \<open>Cloud.Origin\<close> and
  \<open>Service.Origin\<close> are pointers, \<open>None\<close> is nil.
\<close>

record APMEvent =
  event_Timestamp :: Time
  event_Processor :: Processor
  event_Message :: string
  event_DataStream :: DataStream
  event_Cloud_Origin :: "CloudOrigin option"
  event_Service_Origin :: "ServiceOrigin option"

type_synonym Batch = "APMEvent list"

text \<open>\<open>var event model.APMEvent\<close>: every field at its zero value.\<close>

definition zero_APMEvent :: APMEvent where
  "zero_APMEvent =
     \<lparr> event_Timestamp = ZeroTime, event_Processor = NoProcessor, event_Message = [],
       event_DataStream =
         \<lparr> DataStream_Type = [], DataStream_Dataset = [], DataStream_Namespace = [] \<rparr>,
       event_Cloud_Origin = None, event_Service_Origin = None \<rparr>"

section \<open>strings.Split and strings.SplitN on a one-byte separator\<close>

text \<open>
  \<open>strings.Split s sep\<close> returns every piece between separators; with no separator in
  \<open>s\<close> (also for the empty \<open>s\<close>) it is the one-element slice holding \<open>s\<close>.
\<close>

fun Split :: "string \<Rightarrow> char \<Rightarrow> string list" where
  "Split [] sep = [[]]"
| "Split (x # xs) sep =
     (if x = sep then [] # Split xs sep
      else (case Split xs sep of
              [] \<Rightarrow> [[x]]
            | piece # pieces \<Rightarrow> (x # piece) # pieces))"

text \<open>
  \<open>strings.SplitN s sep n\<close> for \<open>n \<ge> 0\<close>: nil for \<open>n = 0\<close>, otherwise at most \<open>n\<close>
  pieces, the last one the unsplit remainder.
\<close>

fun SplitN :: "string \<Rightarrow> char \<Rightarrow> nat \<Rightarrow> string list" where
  "SplitN s sep 0 = []"
| "SplitN s sep (Suc 0) = [s]"
| "SplitN s sep (Suc (Suc n)) =
     (if sep \<in> set s
      then takeWhile (\<lambda>c. c \<noteq> sep) s # SplitN (tl (dropWhile (\<lambda>c. c \<noteq> sep) s)) sep (Suc n)
      else [s])"

section \<open>beater/api/firehose/handler.go\<close>

definition dataset :: string where
  "dataset = ''firehose''"

text \<open>
  Modelled from the spec: \<open>datastreams.LogsType\<close> is declared outside the sources; the
  spec gives the tag as \<open>DataStream.Type=logs\<close>.
\<close>

definition LogsType :: string where
  "LogsType = ''logs''"

record record_ =
  record_Data :: string

record firehoseLog =
  firehose_RequestID :: string
  firehose_Timestamp :: int
  firehose_Records :: "record_ list"

record result =
  result_ErrorMessage :: string
  result_RequestID :: string
  result_Timestamp :: int

record arn =
  arn_Partition :: string
  arn_Service :: string
  arn_Region :: string
  arn_AccountID :: string
  arn_Resource :: string

definition parseARN :: "string \<Rightarrow> arn" where
  "parseARN arnString =
     (let arnSections = 6;
          sections = SplitN arnString (CHR '':'') arnSections
      in if length sections \<noteq> arnSections
         then \<lparr> arn_Partition = [], arn_Service = [], arn_Region = [],
                arn_AccountID = [], arn_Resource = [] \<rparr>
         else \<lparr> arn_Partition = sections ! 1, arn_Service = sections ! 2,
                arn_Region = sections ! 3, arn_AccountID = sections ! 4,
                arn_Resource = sections ! 5 \<rparr>)"

text \<open>
  The inner loop of \<open>processFirehoseLog\<close> over the lines of one record.  \<open>event\<close> is the
  loop's local copy of the base event, overwritten and appended for each line; an empty
  line leaves the loop (\<open>break\<close>).  \<open>firehose.Timestamp/1000\<close> is Go's \<open>int64\<close> division,
  which truncates towards zero (\<open>sdiv\<close>).
\<close>

fun lines_loop :: "firehoseLog \<Rightarrow> APMEvent \<Rightarrow> string list \<Rightarrow> Batch \<Rightarrow> Batch" where
  "lines_loop fh event [] batch = batch"
| "lines_loop fh event (line # splitLines) batch =
     (if line = [] then batch
      else (let event' = event\<lparr> event_Timestamp := Unix (firehose_Timestamp fh sdiv 1000) 0,
                                 event_Processor := LogProcessor,
                                 event_Message := line \<rparr>
            in lines_loop fh event' splitLines (batch @ [event'])))"

text \<open>
  The outer loop over the records.  \<open>DecodeString\<close> stands for
  \<open>base64.StdEncoding.DecodeString\<close> of the Go library; a record that does not decode
  ends the function with that error and no batch.
\<close>

fun records_loop ::
  "(string \<Rightarrow> error + string) \<Rightarrow> firehoseLog \<Rightarrow> APMEvent \<Rightarrow> record_ list \<Rightarrow> Batch
     \<Rightarrow> error + Batch" where
  "records_loop DecodeString fh baseEvent [] batch = Inr batch"
| "records_loop DecodeString fh baseEvent (r # rs) batch =
     (case DecodeString (record_Data r) of
        Inl err \<Rightarrow> Inl err
      | Inr recordDec \<Rightarrow>
          records_loop DecodeString fh baseEvent rs
            (lines_loop fh baseEvent (Split recordDec (CHR 0x0A)) batch))"

definition processFirehoseLog ::
  "(string \<Rightarrow> error + string) \<Rightarrow> firehoseLog \<Rightarrow> APMEvent \<Rightarrow> error + Batch" where
  "processFirehoseLog DecodeString fh baseEvent =
     records_loop DecodeString fh baseEvent (firehose_Records fh) []"

text \<open>
  What the specification's step 5 says of one decoded record: one clone of the base
  event for each non-empty line.  It follows the specification's words, to be compared
  with \<open>lines_loop\<close>.
\<close>

definition log_event :: "firehoseLog \<Rightarrow> APMEvent \<Rightarrow> string \<Rightarrow> APMEvent" where
  "log_event fh baseEvent line =
     baseEvent\<lparr> event_Timestamp := Unix (firehose_Timestamp fh sdiv 1000) 0,
                event_Processor := LogProcessor,
                event_Message := line \<rparr>"

definition spec_record_events :: "firehoseLog \<Rightarrow> APMEvent \<Rightarrow> string \<Rightarrow> Batch" where
  "spec_record_events fh baseEvent recordDec =
     map (log_event fh baseEvent) (filter (\<lambda>line. line \<noteq> []) (Split recordDec (CHR 0x0A)))"

subsection \<open>The handler\<close>

text \<open>
  \<open>base64.StdEncoding.DecodeString\<close> of the Go library, for the concrete requests
  evaluated below (the functions above take the decoder as an argument): the standard
  alphabet with \<open>=\<close> padding, carriage returns and newlines skipped, anything else an
  error.  The byte offset carried by Go's \<open>CorruptInputError\<close> is left out.
\<close>

definition encodeStd :: string where
  "encodeStd = ''ABCDEFGHIJKLMNOPQRSTUVWXYZabcdefghijklmnopqrstuvwxyz0123456789+/''"

fun index_of :: "char \<Rightarrow> string \<Rightarrow> nat option" where
  "index_of c [] = None"
| "index_of c (x # xs) =
     (if c = x then Some 0 else (case index_of c xs of None \<Rightarrow> None | Some i \<Rightarrow> Some (Suc i)))"

definition CorruptInputError :: error where
  "CorruptInputError = ErrorString ''illegal base64 data''"

fun decode_quanta :: "string \<Rightarrow> error + string" where
  "decode_quanta [] = Inr []"
| "decode_quanta (a # b # c # d # rest) =
     (case (index_of a encodeStd, index_of b encodeStd) of
        (Some x, Some y) \<Rightarrow>
          (if c = CHR ''='' \<and> d = CHR ''='' \<and> rest = []
           then Inr [char_of ((x * 64 + y) div 16)]
           else (case index_of c encodeStd of
                   None \<Rightarrow> Inl CorruptInputError
                 | Some z \<Rightarrow>
                     (if d = CHR ''='' \<and> rest = []
                      then Inr [char_of ((x * 64 + y) div 16), char_of ((y * 64 + z) div 4)]
                      else (case index_of d encodeStd of
                              None \<Rightarrow> Inl CorruptInputError
                            | Some w \<Rightarrow>
                                (case decode_quanta rest of
                                   Inl err \<Rightarrow> Inl err
                                 | Inr bytes \<Rightarrow>
                                     Inr (char_of ((x * 64 + y) div 16)
                                          # char_of ((y * 64 + z) div 4)
                                          # char_of (z * 64 + w) # bytes))))))
      | _ \<Rightarrow> Inl CorruptInputError)"
| "decode_quanta _ = Inl CorruptInputError"

definition StdEncoding_DecodeString :: "string \<Rightarrow> error + string" where
  "StdEncoding_DecodeString s =
     decode_quanta (filter (\<lambda>c. c \<noteq> CHR 0x0A \<and> c \<noteq> CHR 0x0D) s)"

text \<open>
  The result ids of package \<open>request\<close> that the handler uses; \<open>IDUnset\<close> is the zero
  value.
\<close>

datatype ResultID =
    IDUnset
  | IDResponseValidAccepted
  | IDResponseErrorsUnauthorized
  | IDResponseErrorsMethodNotAllowed
  | IDResponseErrorsShuttingDown
  | IDResponseErrorsFullQueue
  | IDResponseErrorsInternal

text \<open>
  The error that the inner function \<open>handle\<close> returns: a \<open>requestError\<close> of this package
  (\<open>id\<close>, \<open>err\<close>), or an error passed on as it came from the JSON decoder, the base64
  decoder or the batch processor.  \<open>requestError\<close> is not exported, so a processor handed
  to \<open>Handler\<close> returns none: its errors are of type \<open>error\<close>.
\<close>

datatype handle_error =
    requestError ResultID error
  | passedError error

text \<open>
  \<open>request.Result\<close> and \<open>request.Context\<close> are declared outside the sources.  The model
  keeps what the handler reads and writes: the request's headers, method, body and
  context; the authentication details; the result's id, status code, body and error;
  the response headers; and whether \<open>Write\<close> was called.
\<close>

record Result =
  Result_ID :: ResultID
  Result_StatusCode :: int
  Result_Body :: "result option"
  Result_Err :: "handle_error option"

record 'c Request =
  Request_Header :: "(string \<times> string) list"
  Request_Method :: string
  Request_Body :: string
  Request_Context :: 'c

record ('c, 'd) Context =
  Context_Request :: "'c Request"
  Context_Authentication :: "'d option"
  Context_Result :: Result
  Context_Header :: "(string \<times> string) list"
  Context_Written :: bool

text \<open>\<open>http.Header.Get\<close>: the value stored for the key, or the empty string.\<close>

definition Header_Get :: "(string \<times> string) list \<Rightarrow> string \<Rightarrow> string" where
  "Header_Get h key = (case map_of h key of None \<Rightarrow> [] | Some v \<Rightarrow> v)"

definition Header_Set :: "(string \<times> string) list \<Rightarrow> string \<Rightarrow> string \<Rightarrow> (string \<times> string) list" where
  "Header_Set h key v = (key, v) # filter (\<lambda>kv. fst kv \<noteq> key) h"

text \<open>
  What the handler takes from packages outside the sources: the JSON decoder of the
  request body, the base64 decoder, \<open>auth.ContextWithAuthorizer\<close>, the status code that
  package \<open>request\<close> maps each result id to, and the header names \<open>headers.APIKey\<close> and
  \<open>headers.ContentType\<close>.
\<close>

record ('c, 'z) Lib =
  json_Decode :: "string \<Rightarrow> error + firehoseLog"
  base64_DecodeString :: "string \<Rightarrow> error + string"
  ContextWithAuthorizer :: "'c \<Rightarrow> 'z \<Rightarrow> 'c"
  StatusCodeOf :: "ResultID \<Rightarrow> int"
  headers_APIKey :: string
  headers_ContentType :: string

definition SetWithError :: "('c, 'z) Lib \<Rightarrow> ResultID \<Rightarrow> handle_error \<Rightarrow> Result \<Rightarrow> Result" where
  "SetWithError lib rid err r =
     r\<lparr> Result_ID := rid, Result_StatusCode := StatusCodeOf lib rid, Result_Err := Some err \<rparr>"

definition SetWithBody :: "('c, 'z) Lib \<Rightarrow> ResultID \<Rightarrow> result \<Rightarrow> Result \<Rightarrow> Result" where
  "SetWithBody lib rid body r =
     r\<lparr> Result_ID := rid, Result_StatusCode := StatusCodeOf lib rid, Result_Body := Some body \<rparr>"

definition requestMetadata :: "('c, 'd) Context \<Rightarrow> APMEvent" where
  "requestMetadata c =
     (let arnString = Header_Get (Request_Header (Context_Request c)) ''X-Amz-Firehose-Source-Arn'';
          arnParsed = parseARN arnString;
          event = zero_APMEvent;
          cloudOrigin = \<lparr> CloudOrigin_AccountID = arn_AccountID arnParsed,
                          CloudOrigin_Region = arn_Region arnParsed \<rparr>;
          event = event\<lparr> event_Cloud_Origin := Some cloudOrigin \<rparr>;
          serviceOrigin = \<lparr> ServiceOrigin_ID = arnString,
                            ServiceOrigin_Name = arn_Resource arnParsed \<rparr>;
          event = event\<lparr> event_Service_Origin := Some serviceOrigin \<rparr>
      in event\<lparr> event_DataStream :=
                  (event_DataStream event)\<lparr> DataStream_Type := LogsType,
                                              DataStream_Dataset := dataset \<rparr> \<rparr>)"

text \<open>
  The inner function \<open>handle\<close>.  The processor is a \<open>model.BatchProcessor\<close>: from the
  request's context, the batch and its own state \<open>'p\<close> it gives the error it returns
  (\<open>None\<close> is nil) and its new state.  The authenticator gives an error, or the
  authentication details and an authorizer.
\<close>

definition handle ::
  "('c, 'z) Lib \<Rightarrow> ('c \<Rightarrow> Batch \<Rightarrow> 'p \<Rightarrow> error option \<times> 'p)
     \<Rightarrow> ('c \<Rightarrow> string \<Rightarrow> string \<Rightarrow> error + ('d \<times> 'z))
     \<Rightarrow> ('c, 'd) Context \<Rightarrow> 'p \<Rightarrow> ('c, 'd) Context \<times> 'p \<times> (handle_error + result)" where
  "handle lib processor authenticator c p =
     (let req = Context_Request c;
          accessKey = Header_Get (Request_Header req) ''X-Amz-Firehose-Access-Key''
      in if accessKey = []
         then (c, p, Inl (requestError IDResponseErrorsUnauthorized
                 (ErrorString ''Access key is required for using /firehose endpoint'')))
         else (case authenticator (Request_Context req) (headers_APIKey lib) accessKey of
                 Inl err \<Rightarrow>
                   (c, p, Inl (requestError IDResponseErrorsUnauthorized
                      (ErrorString ''authentication failed'')))
               | Inr (details, authorizer) \<Rightarrow>
                   (let req' = req\<lparr> Request_Context :=
                                  ContextWithAuthorizer lib (Request_Context req) authorizer \<rparr>;
                        c' = c\<lparr> Context_Authentication := Some details,
                               Context_Request := req' \<rparr>
                    in if Request_Method req' \<noteq> ''POST''
                       then (c', p, Inl (requestError IDResponseErrorsMethodNotAllowed
                               (ErrorString ''only POST requests are supported'')))
                       else (case json_Decode lib (Request_Body req') of
                               Inl err \<Rightarrow> (c', p, Inl (passedError err))
                             | Inr firehose \<Rightarrow>
                                 (let baseEvent = requestMetadata c'
                                  in case processFirehoseLog (base64_DecodeString lib)
                                            firehose baseEvent of
                                       Inl err \<Rightarrow> (c', p, Inl (passedError err))
                                     | Inr batch \<Rightarrow>
                                         (case processor (Request_Context req') batch p of
                                            (Some err, p') \<Rightarrow>
                                              (if err = ErrChannelClosed
                                               then (c', p', Inl (requestError
                                                       IDResponseErrorsShuttingDown
                                                       (ErrorString ''server is shutting down'')))
                                               else if err = ErrFull
                                               then (c', p', Inl (requestError
                                                       IDResponseErrorsFullQueue err))
                                               else (c', p', Inl (passedError err)))
                                          | (None, p') \<Rightarrow>
                                              (c', p', Inr \<lparr> result_ErrorMessage = [],
                                                 result_RequestID = firehose_RequestID firehose,
                                                 result_Timestamp = firehose_Timestamp firehose \<rparr>)))))))"

text \<open>
  The function that \<open>Handler\<close> returns: it runs \<open>handle\<close>, stores the outcome in the
  result, sets the content type and writes the response.
\<close>

definition Handler ::
  "('c \<Rightarrow> Batch \<Rightarrow> 'p \<Rightarrow> error option \<times> 'p)
     \<Rightarrow> ('c \<Rightarrow> string \<Rightarrow> string \<Rightarrow> error + ('d \<times> 'z))
     \<Rightarrow> ('c, 'z) Lib \<Rightarrow> ('c, 'd) Context \<Rightarrow> 'p \<Rightarrow> ('c, 'd) Context \<times> 'p" where
  "Handler processor authenticator lib c p =
     (case handle lib processor authenticator c p of
        (c', p', outcome) \<Rightarrow>
          (let r = (case outcome of
                      Inl (requestError rid err) \<Rightarrow>
                        SetWithError lib rid (requestError rid err) (Context_Result c')
                    | Inl (passedError err) \<Rightarrow>
                        SetWithError lib IDResponseErrorsInternal (passedError err)
                          (Context_Result c')
                    | Inr res \<Rightarrow>
                        (SetWithBody lib IDResponseValidAccepted res (Context_Result c'))
                          \<lparr> Result_StatusCode := 200 \<rparr>)
           in (c'\<lparr> Context_Result := r,
                  Context_Header :=
                    Header_Set (Context_Header c') (headers_ContentType lib) ''application/json'',
                  Context_Written := True \<rparr>, p')))"

subsection \<open>Test doubles for the handler's collaborators\<close>

text \<open>
  A processor that accepts every batch and records it, one that refuses every batch
  with a given error, an authenticator that accepts every key, and a JSON decoder that
  knows the request body of the specification's firehose scenario.
\<close>

definition recording_processor :: "unit \<Rightarrow> Batch \<Rightarrow> Batch list \<Rightarrow> error option \<times> Batch list" where
  "recording_processor ctx batch p = (None, p @ [batch])"

definition refusing_processor ::
  "error \<Rightarrow> unit \<Rightarrow> Batch \<Rightarrow> Batch list \<Rightarrow> error option \<times> Batch list" where
  "refusing_processor err ctx batch p = (Some err, p)"

definition accepting_authenticator :: "unit \<Rightarrow> string \<Rightarrow> string \<Rightarrow> error + (unit \<times> unit)" where
  "accepting_authenticator ctx kind token = Inr ((), ())"

definition scenario_envelope :: firehoseLog where
  "scenario_envelope =
     \<lparr> firehose_RequestID = ''req-1'', firehose_Timestamp = 1600000000000,
       firehose_Records = [\<lparr> record_Data = ''bGluZTEKbGluZTI='' \<rparr>] \<rparr>"

definition scenario_json_Decode :: "string \<Rightarrow> error + firehoseLog" where
  "scenario_json_Decode body =
     (if body = ''{requestId:req-1,timestamp:1600000000000,records:[{data:bGluZTEKbGluZTI=}]}''
      then Inr scenario_envelope
      else Inl (ErrorString ''invalid character''))"

definition scenario_Lib :: "(unit, unit) Lib" where
  "scenario_Lib =
     \<lparr> json_Decode = scenario_json_Decode,
       base64_DecodeString = StdEncoding_DecodeString,
       ContextWithAuthorizer = (\<lambda>ctx authorizer. ctx),
       StatusCodeOf = (\<lambda>rid. if rid = IDResponseValidAccepted then 202 else 500),
       headers_APIKey = ''ApiKey'',
       headers_ContentType = ''Content-Type'' \<rparr>"

definition scenario_Context :: "(unit, unit) Context" where
  "scenario_Context =
     \<lparr> Context_Request =
         \<lparr> Request_Header = [(''X-Amz-Firehose-Access-Key'', ''secret'')],
           Request_Method = ''POST'',
           Request_Body =
             ''{requestId:req-1,timestamp:1600000000000,records:[{data:bGluZTEKbGluZTI=}]}'',
           Request_Context = () \<rparr>,
       Context_Authentication = None,
       Context_Result = \<lparr> Result_ID = IDUnset, Result_StatusCode = 0,
                          Result_Body = None, Result_Err = None \<rparr>,
       Context_Header = [],
       Context_Written = False \<rparr>"

section \<open>The model indexer\<close>

subsection \<open>Configuration, bulk items and bulk buffers\<close>

text \<open>
  \<open>Config\<close>.  \<open>MaxRequests\<close> and \<open>FlushBytes\<close> are Go \<open>int\<close>s and \<open>FlushInterval\<close> is a
  \<open>time.Duration\<close> (nanoseconds); the code compares them with zero and with a buffer
  length and does no arithmetic on them, so they are integers here.
\<close>

record Config =
  MaxRequests :: int
  FlushBytes :: int
  FlushInterval :: int

definition time_Second :: int where
  "time_Second = 1000000000"

text \<open>
  \<open>elasticsearch.BulkIndexerItem\<close>: the target index, the action and the body.  The body
  is the pooled reader handed to \<open>Add\<close>; the model keeps the encoded document it holds.
\<close>

record BulkIndexerItem =
  item_Index :: string
  item_Action :: string
  item_Body :: string

text \<open>
  The per-item part of \<open>elasticsearch.BulkIndexerResponse\<close>: a status and an error with
  a type and a reason.  \<open>resp.Items\<close> is a slice of maps from the action name to such an
  item; a map is the list of its entries.
\<close>

record BulkIndexerResponseItem =
  info_Status :: int
  info_Error_Type :: string
  info_Error_Reason :: string

type_synonym BulkIndexerResponse = "(string \<times> BulkIndexerResponseItem) list list"

text \<open>
  Modelled from the spec: \<open>bulkIndexer\<close>, with \<open>newBulkIndexer\<close>, \<open>Add\<close>, \<open>Len\<close>, \<open>Items\<close>,
  \<open>Flush\<close> and \<open>Reset\<close>, is declared in a file that is not among the sources.  The spec
  (4.2): \<open>Add\<close> appends one item's metadata line and body line, charging their bytes to
  \<open>len\<close> and incrementing \<open>items\<close>; \<open>Len\<close> and \<open>Items\<close> return them; \<open>Reset\<close> clears both.
  \<open>bulk_id\<close> is the identity of the allocated buffer (the pointer value), so that two
  buffers with equal contents stay apart.
\<close>

record bulkIndexer =
  bulk_id :: nat
  bulk_items :: "BulkIndexerItem list"
  bulk_len :: nat

text \<open>
  What the indexer takes from outside the sources: the encoding of an event
  (\<open>event.BeatEvent(ctx)\<close> written by the pooled JSON encoder; it sees the context, here
  the value of \<open>ctx.Err()\<close>, and may fail), the bytes \<open>Add\<close> charges for an item, and
  whether \<open>Add\<close> fails on an item.
\<close>

record Env =
  encoder_AddRaw :: "error option \<Rightarrow> APMEvent \<Rightarrow> error + string"
  item_bytes :: "BulkIndexerItem \<Rightarrow> nat"
  Add_error :: "BulkIndexerItem \<Rightarrow> error option"

definition newBulkIndexer :: "nat \<Rightarrow> bulkIndexer" where
  "newBulkIndexer k = \<lparr> bulk_id = k, bulk_items = [], bulk_len = 0 \<rparr>"

definition bulk_Add :: "Env \<Rightarrow> bulkIndexer \<Rightarrow> BulkIndexerItem \<Rightarrow> error + bulkIndexer" where
  "bulk_Add env b item =
     (case Add_error env item of
        Some err \<Rightarrow> Inl err
      | None \<Rightarrow> Inr (b\<lparr> bulk_items := bulk_items b @ [item],
                        bulk_len := bulk_len b + item_bytes env item \<rparr>))"

definition bulk_Len :: "bulkIndexer \<Rightarrow> int" where
  "bulk_Len b = int (bulk_len b)"

definition bulk_Items :: "bulkIndexer \<Rightarrow> int" where
  "bulk_Items b = int (length (bulk_items b))"

definition bulk_Reset :: "bulkIndexer \<Rightarrow> bulkIndexer" where
  "bulk_Reset b = b\<lparr> bulk_items := [], bulk_len := 0 \<rparr>"

subsection \<open>Channels, timers, contexts and the worker group\<close>

text \<open>
  A buffered channel: its capacity and the queued values, oldest first.  A send on a
  full channel and a receive on an empty one block (\<open>None\<close>).
\<close>

record 'a chan =
  chan_cap :: nat
  chan_buf :: "'a list"

definition make_chan :: "int \<Rightarrow> 'a chan" where
  "make_chan n = \<lparr> chan_cap = nat n, chan_buf = [] \<rparr>"

definition chan_send :: "'a chan \<Rightarrow> 'a \<Rightarrow> 'a chan option" where
  "chan_send ch x =
     (if length (chan_buf ch) < chan_cap ch
      then Some (ch\<lparr> chan_buf := chan_buf ch @ [x] \<rparr>) else None)"

text \<open>
  What a call does: it waits (for a lock, a channel or the worker group), it panics (a
  nil pointer is dereferenced), or it comes back with a value.
\<close>

datatype 'a outcome = Blocked | Panic | Done 'a

text \<open>
  A \<open>time.Timer\<close> made by \<open>time.AfterFunc\<close>: armed, expired (it fired and started its
  function), or stopped.  \<open>Stop\<close> reports whether it stopped an armed timer; on the nil
  timer it is a nil dereference.  The model has no clock: an armed timer may fire at any
  moment.
\<close>

datatype timer_state = Armed | Expired | Stopped

definition timer_Stop :: "timer_state option \<Rightarrow> (bool \<times> timer_state option) outcome" where
  "timer_Stop t =
     (case t of
        None \<Rightarrow> Panic
      | Some Armed \<Rightarrow> Done (True, Some Stopped)
      | Some Expired \<Rightarrow> Done (False, Some Expired)
      | Some Stopped \<Rightarrow> Done (False, Some Stopped))"

text \<open>
  The context a flush is started with: \<open>context.Background()\<close>, or the context of the
  \<open>Close\<close> call with the given number.
\<close>

datatype flush_parent = Background | CloseContext nat

text \<open>
  A goroutine started by \<open>i.g.Go\<close> in \<open>flushActiveLocked\<close>: the buffer it was handed (nil
  when the active slot was empty), the parent of its context, and where it stands:
  started; waiting for the store with \<open>n\<close> items; back from \<open>flush\<close>'s body with the
  deferred subtraction of \<open>n\<close> from \<open>eventsActive\<close> still to run; about to reset and
  return the buffer; finished; or stopped by a nil dereference.
\<close>

datatype task_pc =
    Spawned
  | Requested int
  | Deferred int "error option"
  | Exiting "error option"
  | Finished
  | Crashed

record task =
  task_bulk :: "bulkIndexer option"
  task_parent :: flush_parent
  task_pc :: task_pc

text \<open>
  The \<open>errgroup.Group\<close>: the goroutines it started and the first error one of them
  returned.
\<close>

record Group =
  group_tasks :: "task list"
  group_err :: "error option"

definition Group_Go :: "Group \<Rightarrow> task \<Rightarrow> Group" where
  "Group_Go grp t = grp\<lparr> group_tasks := group_tasks grp @ [t] \<rparr>"

definition task_running :: "task \<Rightarrow> bool" where
  "task_running t = (task_pc t \<noteq> Finished \<and> task_pc t \<noteq> Crashed)"

definition Group_Wait :: "Group \<Rightarrow> error option outcome" where
  "Group_Wait grp =
     (if list_ex task_running (group_tasks grp) then Blocked else Done (group_err grp))"

subsection \<open>The indexer\<close>

text \<open>
  The \<open>Indexer\<close> struct.  \<open>mu\<close> is the number of read locks held and whether the write
  lock is held; \<open>activeMu\<close> is whether that mutex is held; \<open>closed\<close> is whether the channel
  of that name has been closed; a nil \<open>active\<close> or \<open>timer\<close> is \<open>None\<close>.  \<open>store_requests\<close>
  is not a field of the struct: it records the items of every bulk request issued to the
  store, in order.
\<close>

record Indexer =
  eventsAdded :: int
  eventsActive :: int
  eventsFailed :: int
  config :: Config
  available :: "bulkIndexer chan"
  g :: Group
  mu_readers :: nat
  mu_writer :: bool
  closing :: bool
  closed :: bool
  activeMu :: bool
  active :: "bulkIndexer option"
  timer :: "timer_state option"
  store_requests :: "BulkIndexerItem list list"

text \<open>
  The loop of \<open>New\<close> that fills the channel.  The buffers are numbered in the order of
  their allocation.
\<close>

function New_loop :: "int \<Rightarrow> int \<Rightarrow> bulkIndexer chan \<Rightarrow> bulkIndexer chan outcome" where
  "New_loop k n ch =
     (if k < n
      then (case chan_send ch (newBulkIndexer (nat k)) of
              None \<Rightarrow> Blocked
            | Some ch' \<Rightarrow> New_loop (k + 1) n ch')
      else Done ch)"
  by pat_completeness auto
termination
  by (relation "measure (\<lambda>(k, n, ch). nat (n - k))") auto

declare New_loop.simps [simp del]

definition New :: "Config \<Rightarrow> Indexer outcome" where
  "New cfg0 =
     (let cfg = (if MaxRequests cfg0 \<le> 0 then cfg0\<lparr> MaxRequests := 10 \<rparr> else cfg0);
          cfg = (if FlushBytes cfg \<le> 0 then cfg\<lparr> FlushBytes := 5 * 1024 * 1024 \<rparr> else cfg);
          cfg = (if FlushInterval cfg \<le> 0 then cfg\<lparr> FlushInterval := 30 * time_Second \<rparr>
                 else cfg)
      in case New_loop 0 (MaxRequests cfg) (make_chan (MaxRequests cfg)) of
           Blocked \<Rightarrow> Blocked
         | Panic \<Rightarrow> Panic
         | Done avail \<Rightarrow>
             Done \<lparr> eventsAdded = 0, eventsActive = 0, eventsFailed = 0,
                    config = cfg, available = avail,
                    g = \<lparr> group_tasks = [], group_err = None \<rparr>,
                    mu_readers = 0, mu_writer = False,
                    closing = False, closed = False, activeMu = False,
                    active = None, timer = None, store_requests = [] \<rparr>)"

text \<open>
  \<open>flushActiveLocked\<close>: the active buffer is taken out of its slot and handed to a new
  goroutine of the group, whose context is a child of \<open>ctx\<close> that is also cancelled when
  \<open>i.closed\<close> is closed.
\<close>

definition flushActiveLocked :: "flush_parent \<Rightarrow> Indexer \<Rightarrow> Indexer" where
  "flushActiveLocked ctx i =
     (let bulkIndexer = active i
      in i\<lparr> active := None,
            g := Group_Go (g i)
                   \<lparr> task_bulk = bulkIndexer, task_parent = ctx, task_pc = Spawned \<rparr> \<rparr>)"

subsection \<open>flush\<close>

text \<open>The two loops of \<open>flush\<close> over the response, counting the failed items.\<close>

fun info_loop :: "(string \<times> BulkIndexerResponseItem) list \<Rightarrow> int \<Rightarrow> int" where
  "info_loop [] eventsFailed' = eventsFailed'"
| "info_loop ((action, info) # item) eventsFailed' =
     (if info_Error_Type info \<noteq> [] \<or> info_Status info > 201
      then info_loop item (eventsFailed' + 1)
      else info_loop item eventsFailed')"

fun items_loop :: "BulkIndexerResponse \<Rightarrow> int \<Rightarrow> int" where
  "items_loop [] eventsFailed' = eventsFailed'"
| "items_loop (item # items) eventsFailed' = items_loop items (info_loop item eventsFailed')"

text \<open>
  \<open>flush\<close> after \<open>bulkIndexer.Flush\<close> has come back with \<open>result\<close>, up to its return
  statement: the error it returns and the counter it has changed.
\<close>

definition flush_result ::
  "int \<Rightarrow> error + BulkIndexerResponse \<Rightarrow> Indexer \<Rightarrow> error option \<times> Indexer" where
  "flush_result n result i =
     (case result of
        Inl err \<Rightarrow> (Some err, i\<lparr> eventsFailed := eventsFailed i + n \<rparr>)
      | Inr resp \<Rightarrow>
          (let eventsFailed' = items_loop resp 0
           in (None, if eventsFailed' > 0
                     then i\<lparr> eventsFailed := eventsFailed i + eventsFailed' \<rparr> else i)))"

text \<open>The deferred call of \<open>flush\<close>, run when it returns.\<close>

definition flush_deferred :: "int \<Rightarrow> Indexer \<Rightarrow> Indexer" where
  "flush_deferred n i = i\<lparr> eventsActive := eventsActive i - n \<rparr>"

text \<open>
  \<open>flush\<close> run from its first line to its return, \<open>result\<close> being what the store answers
  if it is asked.  A nil buffer is a nil dereference.
\<close>

definition flush ::
  "(error + BulkIndexerResponse) \<Rightarrow> bulkIndexer option \<Rightarrow> Indexer
     \<Rightarrow> (error option \<times> Indexer) outcome" where
  "flush result bulk i =
     (case bulk of
        None \<Rightarrow> Panic
      | Some b \<Rightarrow>
          (let n = bulk_Items b
           in if n = 0 then Done (None, i)
              else (let i1 = i\<lparr> store_requests := store_requests i @ [bulk_items b] \<rparr>;
                        (err, i2) = flush_result n result i1
                    in Done (err, flush_deferred n i2))))"


subsection \<open>processEvent\<close>

text \<open>
  The pooled reader: the buffer the encoder writes the document to, and the builder of
  the index name.  A reader taken from the pool was reset before it was put there, and
  a new one is empty.
\<close>

record pooledReader =
  reader_buf :: string
  reader_indexBuilder :: string

definition getPooledReader :: pooledReader where
  "getPooledReader = \<lparr> reader_buf = [], reader_indexBuilder = [] \<rparr>"

text \<open>
  \<open>processEvent\<close> before it takes the lock: the event is encoded into the reader and the
  index name is built.  The result is the error of the encoder, or the reader and the
  index name.
\<close>

definition processEvent_encode ::
  "Env \<Rightarrow> error option \<Rightarrow> APMEvent \<Rightarrow> error + (pooledReader \<times> string)" where
  "processEvent_encode env ctx event =
     (let r = getPooledReader
      in case encoder_AddRaw env ctx event of
           Inl err \<Rightarrow> Inl err
         | Inr doc \<Rightarrow>
             (let r = r\<lparr> reader_buf := reader_buf r @ doc \<rparr>;
                  r = r\<lparr> reader_indexBuilder :=
                         reader_indexBuilder r @ DataStream_Type (event_DataStream event) \<rparr>;
                  r = r\<lparr> reader_indexBuilder := reader_indexBuilder r @ [CHR ''-''] \<rparr>;
                  r = r\<lparr> reader_indexBuilder :=
                         reader_indexBuilder r @ DataStream_Dataset (event_DataStream event) \<rparr>;
                  r = r\<lparr> reader_indexBuilder := reader_indexBuilder r @ [CHR ''-''] \<rparr>;
                  r = r\<lparr> reader_indexBuilder :=
                         reader_indexBuilder r @ DataStream_Namespace (event_DataStream event) \<rparr>;
                  index = reader_indexBuilder r
              in Inr (r, index)))"

text \<open>
  The block \<open>if i.active == nil\<close>.  \<open>ctx\<close> is the value of \<open>ctx.Err()\<close> when the select
  runs: \<open>None\<close> while the context is not done.  With the context done and a buffer in
  the pool both cases of the select are ready and Go takes either; \<open>pick\<close> says whether
  it takes \<open>ctx.Done()\<close>.  With neither ready the select waits.  The result is the
  error returned, or none and the indexer with an active buffer and the timer armed
  (made by \<open>time.AfterFunc\<close>, or \<open>Reset\<close>).
\<close>

definition take_available :: "bulkIndexer \<Rightarrow> bulkIndexer list \<Rightarrow> Indexer \<Rightarrow> Indexer" where
  "take_available b rest i =
     i\<lparr> active := Some b,
        available := (available i)\<lparr> chan_buf := rest \<rparr>,
        timer := (case timer i of None \<Rightarrow> Some Armed | Some t \<Rightarrow> Some Armed) \<rparr>"

definition processEvent_select ::
  "error option \<Rightarrow> bool \<Rightarrow> Indexer \<Rightarrow> (error option \<times> Indexer) outcome" where
  "processEvent_select ctx pick i =
     (if active i = None
      then (case (ctx, chan_buf (available i)) of
              (None, []) \<Rightarrow> Blocked
            | (Some err, []) \<Rightarrow> Done (Some err, i)
            | (None, b # rest) \<Rightarrow> Done (None, take_available b rest i)
            | (Some err, b # rest) \<Rightarrow>
                (if pick then Done (Some err, i) else Done (None, take_available b rest i)))
      else Done (None, i))"

text \<open>
  \<open>processEvent\<close> with \<open>activeMu\<close> held, from the select to the increment of
  \<open>eventsAdded\<close>.  Where the function returns an error, its deferred \<open>Unlock\<close> runs.
\<close>

definition processEvent_append ::
  "Env \<Rightarrow> error option \<Rightarrow> bool \<Rightarrow> pooledReader \<Rightarrow> string \<Rightarrow> Indexer
     \<Rightarrow> (error option \<times> Indexer) outcome" where
  "processEvent_append env ctx pick r index i =
     (case processEvent_select ctx pick i of
        Blocked \<Rightarrow> Blocked
      | Panic \<Rightarrow> Panic
      | Done (Some err, i1) \<Rightarrow> Done (Some err, i1\<lparr> activeMu := False \<rparr>)
      | Done (None, i1) \<Rightarrow>
          (case active i1 of
             None \<Rightarrow> Panic
           | Some b \<Rightarrow>
               (case bulk_Add env b \<lparr> item_Index = index, item_Action = ''create'',
                                        item_Body = reader_buf r \<rparr> of
                  Inl err \<Rightarrow> Done (Some err, i1\<lparr> activeMu := False \<rparr>)
                | Inr b' \<Rightarrow>
                    Done (None, i1\<lparr> active := Some b',
                                    eventsAdded := eventsAdded i1 + 1 \<rparr>))))"

text \<open>
  The rest of \<open>processEvent\<close>: the increment of \<open>eventsActive\<close>, the threshold test with
  the attempt to stop the timer, the handoff, and the deferred \<open>Unlock\<close>.
\<close>

definition processEvent_finish :: "Indexer \<Rightarrow> Indexer outcome" where
  "processEvent_finish i =
     (let i1 = i\<lparr> eventsActive := eventsActive i + 1 \<rparr>
      in case active i1 of
           None \<Rightarrow> Panic
         | Some b \<Rightarrow>
             (if bulk_Len b \<ge> FlushBytes (config i1)
              then (case timer_Stop (timer i1) of
                      Blocked \<Rightarrow> Blocked
                    | Panic \<Rightarrow> Panic
                    | Done (stopped, t) \<Rightarrow>
                        (let i2 = i1\<lparr> timer := t \<rparr>;
                             i3 = (if stopped then flushActiveLocked Background i2 else i2)
                         in Done (i3\<lparr> activeMu := False \<rparr>)))
              else Done (i1\<lparr> activeMu := False \<rparr>)))"

text \<open>
  \<open>processEvent\<close> run from its first line to its return with no other goroutine in
  between.  It waits when \<open>activeMu\<close> is held or the select has no ready case.
\<close>

definition processEvent ::
  "Env \<Rightarrow> error option \<Rightarrow> bool \<Rightarrow> APMEvent \<Rightarrow> Indexer \<Rightarrow> (error option \<times> Indexer) outcome" where
  "processEvent env ctx pick event i =
     (case processEvent_encode env ctx event of
        Inl err \<Rightarrow> Done (Some err, i)
      | Inr (r, index) \<Rightarrow>
          (if activeMu i then Blocked
           else (case processEvent_append env ctx pick r index (i\<lparr> activeMu := True \<rparr>) of
                   Blocked \<Rightarrow> Blocked
                 | Panic \<Rightarrow> Panic
                 | Done (Some err, i1) \<Rightarrow> Done (Some err, i1)
                 | Done (None, i1) \<Rightarrow>
                     (case processEvent_finish i1 of
                        Blocked \<Rightarrow> Blocked
                      | Panic \<Rightarrow> Panic
                      | Done i2 \<Rightarrow> Done (None, i2)))))"

text \<open>\<open>flushActive\<close>, the function the timer runs.\<close>

definition flushActive :: "Indexer \<Rightarrow> Indexer outcome" where
  "flushActive i =
     (if activeMu i then Blocked else Done (flushActiveLocked Background i))"

subsection \<open>ProcessBatch\<close>

text \<open>
  The loop of \<open>ProcessBatch\<close>, run with no other goroutine in between; \<open>picks\<close> are the
  choices of the selects, one for each event (none left counts as \<open>False\<close>).
\<close>

fun events_loop ::
  "Env \<Rightarrow> error option \<Rightarrow> bool list \<Rightarrow> APMEvent list \<Rightarrow> Indexer
     \<Rightarrow> (error option \<times> Indexer) outcome" where
  "events_loop env ctx picks [] i = Done (None, i)"
| "events_loop env ctx picks (event # batch) i =
     (case processEvent env ctx (case picks of [] \<Rightarrow> False | pick # _ \<Rightarrow> pick) event i of
        Blocked \<Rightarrow> Blocked
      | Panic \<Rightarrow> Panic
      | Done (Some err, i') \<Rightarrow> Done (Some err, i')
      | Done (None, i') \<Rightarrow> events_loop env ctx (tl picks) batch i')"

definition mu_RLock :: "Indexer \<Rightarrow> Indexer outcome" where
  "mu_RLock i = (if mu_writer i then Blocked else Done (i\<lparr> mu_readers := mu_readers i + 1 \<rparr>))"

definition mu_RUnlock :: "Indexer \<Rightarrow> Indexer" where
  "mu_RUnlock i = i\<lparr> mu_readers := mu_readers i - 1 \<rparr>"

definition ProcessBatch ::
  "Env \<Rightarrow> error option \<Rightarrow> bool list \<Rightarrow> Batch \<Rightarrow> Indexer \<Rightarrow> (error option \<times> Indexer) outcome" where
  "ProcessBatch env ctx picks batch i =
     (case mu_RLock i of
        Blocked \<Rightarrow> Blocked
      | Panic \<Rightarrow> Panic
      | Done i1 \<Rightarrow>
          (if closing i1 then Done (Some ErrClosed, mu_RUnlock i1)
           else (case events_loop env ctx picks batch i1 of
                   Blocked \<Rightarrow> Blocked
                 | Panic \<Rightarrow> Panic
                 | Done (err, i2) \<Rightarrow> Done (err, mu_RUnlock i2))))"

subsection \<open>Close\<close>

text \<open>\<open>i.mu.Lock()\<close>: it waits while a read lock or the write lock is held.\<close>

definition mu_Lock :: "Indexer \<Rightarrow> Indexer outcome" where
  "mu_Lock i =
     (if mu_writer i \<or> mu_readers i > 0 then Blocked else Done (i\<lparr> mu_writer := True \<rparr>))"

text \<open>
  \<open>Close\<close> with \<open>mu\<close> held, up to the call of \<open>i.g.Wait()\<close>.  \<open>ctx\<close> names the context
  of this call.  The result says whether this call found \<open>closing\<close> unset: then it has
  started the goroutine that closes \<open>i.closed\<close>, and it holds \<open>activeMu\<close> until it
  returns.  \<open>started\<close> records that goroutine, which is not part of the struct.
\<close>

definition Close_begin :: "flush_parent \<Rightarrow> Indexer \<Rightarrow> (bool \<times> Indexer) outcome" where
  "Close_begin ctx i =
     (if \<not> closing i
      then (let i1 = i\<lparr> closing := True \<rparr>
            in if activeMu i1 then Blocked
               else (let i2 = i1\<lparr> activeMu := True \<rparr>
                     in if active i2 \<noteq> None
                        then (case timer_Stop (timer i2) of
                                Blocked \<Rightarrow> Blocked
                              | Panic \<Rightarrow> Panic
                              | Done (stopped, t) \<Rightarrow>
                                  (let i3 = i2\<lparr> timer := t \<rparr>
                                   in Done (True, if stopped then flushActiveLocked ctx i3
                                                  else i3)))
                        else Done (True, i2)))
      else Done (False, i))"

text \<open>
  \<open>return i.g.Wait()\<close> and the deferred calls: \<open>activeMu\<close> is released by the call that
  took it, and \<open>mu\<close> is released.
\<close>

definition Close_wait :: "bool \<Rightarrow> Indexer \<Rightarrow> (error option \<times> Indexer) outcome" where
  "Close_wait first i =
     (case Group_Wait (g i) of
        Blocked \<Rightarrow> Blocked
      | Panic \<Rightarrow> Panic
      | Done err \<Rightarrow>
          Done (err, i\<lparr> activeMu := (if first then False else activeMu i),
                         mu_writer := False \<rparr>))"

text \<open>\<open>Close\<close> run from its first line to its return with no other goroutine in between.\<close>

definition Close :: "flush_parent \<Rightarrow> Indexer \<Rightarrow> (error option \<times> Indexer) outcome" where
  "Close ctx i =
     (case mu_Lock i of
        Blocked \<Rightarrow> Blocked
      | Panic \<Rightarrow> Panic
      | Done i1 \<Rightarrow>
          (case Close_begin ctx i1 of
             Blocked \<Rightarrow> Blocked
           | Panic \<Rightarrow> Panic
           | Done (first, i2) \<Rightarrow> Close_wait first i2))"

subsection \<open>Stats\<close>

text \<open>
  \<open>Stats\<close> takes no lock.  It loads the three counters one after the other, in the
  order of the fields of its literal: \<open>eventsAdded\<close>, \<open>eventsActive\<close>, \<open>eventsFailed\<close>.
  Other goroutines run between the loads, so each load reads the indexer of its own
  moment.  A call stands before its first load, after the load of \<open>eventsAdded\<close>, after
  the load of \<open>eventsActive\<close>, or it has returned.
\<close>

record Stats =
  stats_Active :: int
  stats_Added :: int
  stats_Failed :: int

datatype stats_pc =
    StatsCalled
  | LoadedAdded int
  | LoadedActive int int
  | StatsReturned Stats

text \<open>The next load of a call of \<open>Stats\<close>; a call that has returned loads nothing.\<close>

fun Stats_load :: "Indexer \<Rightarrow> stats_pc \<Rightarrow> stats_pc option" where
  "Stats_load i StatsCalled = Some (LoadedAdded (eventsAdded i))"
| "Stats_load i (LoadedAdded added) = Some (LoadedActive added (eventsActive i))"
| "Stats_load i (LoadedActive added act) =
     Some (StatsReturned \<lparr> stats_Active = act, stats_Added = added,
                            stats_Failed = eventsFailed i \<rparr>)"
| "Stats_load i (StatsReturned st) = None"

text \<open>
  What \<open>Stats\<close> returns when the indexer is \<open>i1\<close> at the load of \<open>eventsAdded\<close>, \<open>i2\<close> at
  the load of \<open>eventsActive\<close> and \<open>i3\<close> at the load of \<open>eventsFailed\<close>.
\<close>

definition Indexer_Stats :: "Indexer \<Rightarrow> Indexer \<Rightarrow> Indexer \<Rightarrow> Stats" where
  "Indexer_Stats i1 i2 i3 =
     \<lparr> stats_Active = eventsActive i2, stats_Added = eventsAdded i1,
       stats_Failed = eventsFailed i3 \<rparr>"


section \<open>The goroutines around one indexer\<close>

text \<open>
  The functions above are whole calls.  The indexer is shared by goroutines whose
  atomic operations interleave: callers of \<open>ProcessBatch\<close>, the function the timer
  starts, the flush goroutines of the group, callers of \<open>Close\<close> and the goroutine the
  first \<open>Close\<close> starts.  A step of the system is one goroutine running from one
  operation on shared state (a lock, a channel, an atomic counter, the group) to the
  next.

  A caller of \<open>ProcessBatch\<close>: its context (\<open>ctx.Err()\<close>), the events it has still to
  process (the first one is in work) and where it stands: before \<open>RLock\<close>; in the loop
  between two events; in \<open>processEvent\<close> holding \<open>activeMu\<close> before the select, with the
  reader and the index name; after the increment of \<open>eventsAdded\<close>; returned.
\<close>

datatype caller_pc =
    Called
  | Looping
  | Locked pooledReader string
  | Added
  | Returned "error option"

record caller =
  caller_ctx :: "error option"
  caller_events :: "APMEvent list"
  caller_pc :: caller_pc

text \<open>
  A caller of \<open>Close\<close>: its context and where it stands: before \<open>Lock\<close>; holding \<open>mu\<close>;
  in \<open>i.g.Wait()\<close> (and whether it is the call that set \<open>closing\<close>); returned.
\<close>

datatype closer_pc =
    CloseCalled
  | CloseLocked
  | CloseWaiting bool
  | CloseReturned "error option"

record closer =
  closer_ctx :: "error option"
  closer_pc :: closer_pc

text \<open>
  The goroutine started by the call of \<open>Close\<close> that set \<open>closing\<close>: it waits for that
  call to return or for its context, then closes \<open>i.closed\<close>.
\<close>

datatype watcher_state = NoWatcher | Watching nat | WatcherDone

text \<open>
  What the store answers for the items of a bulk request.  An entry of the response is
  a failure for \<open>flush\<close> when its error type is not empty or its status is above 201;
  \<open>entries_succeeded\<close> counts the other entries of a response (none when the request
  itself failed).  \<open>answer_matches\<close>: the response has one entry for each of the \<open>n\<close>
  items sent.  \<open>flush\<close> checks neither: it counts the failures it finds and subtracts \<open>n\<close>.
\<close>

definition entry_failed :: "string \<times> BulkIndexerResponseItem \<Rightarrow> bool" where
  "entry_failed entry = (info_Error_Type (snd entry) \<noteq> [] \<or> info_Status (snd entry) > 201)"

definition entries_succeeded :: "error + BulkIndexerResponse \<Rightarrow> int" where
  "entries_succeeded result =
     (case result of
        Inl err \<Rightarrow> 0
      | Inr resp \<Rightarrow> int (length (filter (\<lambda>entry. \<not> entry_failed entry) (concat resp))))"

definition answer_matches :: "int \<Rightarrow> error + BulkIndexerResponse \<Rightarrow> bool" where
  "answer_matches n result =
     (case result of Inl err \<Rightarrow> True | Inr resp \<Rightarrow> int (length (concat resp)) = n)"

text \<open>
  The system: the indexer, the callers of \<open>ProcessBatch\<close>, of \<open>Close\<close> and of \<open>Stats\<close>, the
  goroutines started by the timer that have not run \<open>flushActive\<close> yet, and the watcher.
  Three fields observe the run and are read by no step: \<open>succeeded\<close> counts the entries
  of the responses to successful bulk requests that are not failures,
  \<open>unmatched_responses\<close> counts the responses to successful bulk requests that did not
  have one entry for each item sent, and \<open>flush_returns\<close> lists what the flush goroutines
  returned, in the order of their return.
\<close>

record System =
  indexer :: Indexer
  callers :: "caller list"
  closers :: "closer list"
  stats_calls :: "stats_pc list"
  timer_goroutines :: nat
  watcher :: watcher_state
  succeeded :: int
  unmatched_responses :: nat
  flush_returns :: "error option list"

datatype action =
    Call_ProcessBatch "APMEvent list"
  | Caller_Enter nat
  | Caller_Lock nat
  | Caller_Append nat bool
  | Caller_Finish nat
  | Cancel_Caller nat error
  | Timer_Fire
  | Timer_FlushActive
  | Worker_Start nat
  | Worker_Respond nat "error + BulkIndexerResponse"
  | Worker_Deferred nat
  | Worker_Exit nat
  | Call_Close
  | Closer_Lock nat
  | Closer_Begin nat
  | Closer_Wait nat
  | Cancel_Closer nat error
  | Watcher_Close
  | Call_Stats
  | Stats_Load nat

definition set_caller_pc :: "nat \<Rightarrow> caller_pc \<Rightarrow> System \<Rightarrow> System" where
  "set_caller_pc k pc s = s\<lparr> callers := (callers s)[k := (callers s ! k)\<lparr> caller_pc := pc \<rparr>] \<rparr>"

definition set_closer_pc :: "nat \<Rightarrow> closer_pc \<Rightarrow> System \<Rightarrow> System" where
  "set_closer_pc d pc s = s\<lparr> closers := (closers s)[d := (closers s ! d)\<lparr> closer_pc := pc \<rparr>] \<rparr>"

definition set_task_pc :: "nat \<Rightarrow> task_pc \<Rightarrow> Indexer \<Rightarrow> Indexer" where
  "set_task_pc k pc i =
     i\<lparr> g := (g i)\<lparr> group_tasks :=
                       (group_tasks (g i))[k := (group_tasks (g i) ! k)\<lparr> task_pc := pc \<rparr>] \<rparr> \<rparr>"

text \<open>The function passed to \<open>errOnce.Do\<close>: the group keeps the first error.\<close>

definition Group_record :: "error option \<Rightarrow> Group \<Rightarrow> Group" where
  "Group_record err grp =
     (case err of
        None \<Rightarrow> grp
      | Some e \<Rightarrow> (if group_err grp = None then grp\<lparr> group_err := Some e \<rparr> else grp))"

definition context_error :: "error \<Rightarrow> bool" where
  "context_error err = (err = Canceled \<or> err = DeadlineExceeded)"

text \<open>
  One step.  \<open>None\<close>: the goroutine is not at that point, or it waits there.

  \<^item> \<open>Call_ProcessBatch\<close>, \<open>Call_Close\<close>: a new call, its context not done;
    \<open>Call_Stats\<close>: a new call of \<open>Stats\<close>; \<open>Stats_Load\<close>: its next atomic load.
  \<^item> \<open>Caller_Enter\<close>: \<open>RLock\<close> and the test of \<open>closing\<close>.
  \<^item> \<open>Caller_Lock\<close>: the loop head; the next event is encoded and \<open>activeMu\<close> taken.
  \<^item> \<open>Caller_Append\<close>: the select, \<open>Add\<close> and the increment of \<open>eventsAdded\<close>.
  \<^item> \<open>Caller_Finish\<close>: the increment of \<open>eventsActive\<close>, the threshold test, \<open>Unlock\<close>.
  \<^item> \<open>Cancel_Caller\<close>, \<open>Cancel_Closer\<close>: a context becomes done.
  \<^item> \<open>Timer_Fire\<close>: the armed timer fires and starts \<open>flushActive\<close> in a goroutine;
    \<open>Timer_FlushActive\<close>: one such goroutine runs.
  \<^item> \<open>Worker_Start\<close>: \<open>flush\<close> reads \<open>Items()\<close> and, unless it is zero, sends the request;
    \<open>Worker_Respond\<close>: the store answers and \<open>eventsFailed\<close> is updated;
    \<open>Worker_Deferred\<close>: the deferred subtraction from \<open>eventsActive\<close>;
    \<open>Worker_Exit\<close>: the buffer is reset and sent to the pool, the group records the error.
  \<^item> \<open>Closer_Lock\<close>: \<open>mu.Lock\<close>; \<open>Closer_Begin\<close>: \<open>Close\<close> up to \<open>Wait\<close>;
    \<open>Closer_Wait\<close>: \<open>Wait\<close> returns and \<open>Close\<close> with it.
  \<^item> \<open>Watcher_Close\<close>: the watcher goroutine closes \<open>i.closed\<close>.
\<close>

fun step :: "Env \<Rightarrow> action \<Rightarrow> System \<Rightarrow> System option" where
  "step env (Call_ProcessBatch batch) s =
     Some (s\<lparr> callers := callers s
                  @ [\<lparr> caller_ctx = None, caller_events = batch, caller_pc = Called \<rparr>] \<rparr>)"
| "step env (Caller_Enter k) s =
     (if k < length (callers s) \<and> caller_pc (callers s ! k) = Called
      then (case mu_RLock (indexer s) of
              Done i1 \<Rightarrow>
                (if closing i1
                 then Some (set_caller_pc k (Returned (Some ErrClosed))
                              (s\<lparr> indexer := mu_RUnlock i1 \<rparr>))
                 else Some (set_caller_pc k Looping (s\<lparr> indexer := i1 \<rparr>)))
            | _ \<Rightarrow> None)
      else None)"
| "step env (Caller_Lock k) s =
     (if k < length (callers s) \<and> caller_pc (callers s ! k) = Looping
      then (case caller_events (callers s ! k) of
              [] \<Rightarrow> Some (set_caller_pc k (Returned None)
                            (s\<lparr> indexer := mu_RUnlock (indexer s) \<rparr>))
            | event # batch \<Rightarrow>
                (case processEvent_encode env (caller_ctx (callers s ! k)) event of
                   Inl err \<Rightarrow> Some (set_caller_pc k (Returned (Some err))
                                      (s\<lparr> indexer := mu_RUnlock (indexer s) \<rparr>))
                 | Inr (r, index) \<Rightarrow>
                     (if activeMu (indexer s) then None
                      else Some (set_caller_pc k (Locked r index)
                                   (s\<lparr> indexer := (indexer s)\<lparr> activeMu := True \<rparr> \<rparr>)))))
      else None)"
| "step env (Caller_Append k pick) s =
     (if k < length (callers s)
      then (case caller_pc (callers s ! k) of
              Locked r index \<Rightarrow>
                (case processEvent_append env (caller_ctx (callers s ! k)) pick r index
                        (indexer s) of
                   Done (Some err, i1) \<Rightarrow>
                     Some (set_caller_pc k (Returned (Some err))
                             (s\<lparr> indexer := mu_RUnlock i1 \<rparr>))
                 | Done (None, i1) \<Rightarrow> Some (set_caller_pc k Added (s\<lparr> indexer := i1 \<rparr>))
                 | _ \<Rightarrow> None)
            | _ \<Rightarrow> None)
      else None)"
| "step env (Caller_Finish k) s =
     (if k < length (callers s) \<and> caller_pc (callers s ! k) = Added
      then (case processEvent_finish (indexer s) of
              Done i1 \<Rightarrow>
                Some (s\<lparr> indexer := i1,
                         callers := (callers s)[k := (callers s ! k)
                           \<lparr> caller_events := tl (caller_events (callers s ! k)),
                             caller_pc := Looping \<rparr>] \<rparr>)
            | _ \<Rightarrow> None)
      else None)"
| "step env (Cancel_Caller k err) s =
     (if k < length (callers s) \<and> caller_ctx (callers s ! k) = None \<and> context_error err
      then Some (s\<lparr> callers := (callers s)[k := (callers s ! k)\<lparr> caller_ctx := Some err \<rparr>] \<rparr>)
      else None)"
| "step env Timer_Fire s =
     (if timer (indexer s) = Some Armed
      then Some (s\<lparr> indexer := (indexer s)\<lparr> timer := Some Expired \<rparr>,
                    timer_goroutines := timer_goroutines s + 1 \<rparr>)
      else None)"
| "step env Timer_FlushActive s =
     (if timer_goroutines s > 0
      then (case flushActive (indexer s) of
              Done i1 \<Rightarrow> Some (s\<lparr> indexer := i1, timer_goroutines := timer_goroutines s - 1 \<rparr>)
            | _ \<Rightarrow> None)
      else None)"
| "step env (Worker_Start k) s =
     (let i = indexer s
      in if k < length (group_tasks (g i)) \<and> task_pc (group_tasks (g i) ! k) = Spawned
         then (case task_bulk (group_tasks (g i) ! k) of
                 None \<Rightarrow> Some (s\<lparr> indexer := set_task_pc k Crashed i \<rparr>)
               | Some b \<Rightarrow>
                   (let n = bulk_Items b
                    in if n = 0 then Some (s\<lparr> indexer := set_task_pc k (Exiting None) i \<rparr>)
                       else Some (s\<lparr> indexer := set_task_pc k (Requested n)
                                     (i\<lparr> store_requests := store_requests i @ [bulk_items b] \<rparr>) \<rparr>)))
         else None)"
| "step env (Worker_Respond k result) s =
     (let i = indexer s
      in if k < length (group_tasks (g i))
         then (case task_pc (group_tasks (g i) ! k) of
                 Requested n \<Rightarrow>
                   (case flush_result n result i of
                      (err, i1) \<Rightarrow>
                        Some (s\<lparr> indexer := set_task_pc k (Deferred n err) i1,
                                 succeeded := succeeded s + entries_succeeded result,
                                 unmatched_responses := unmatched_responses s
                                   + (if answer_matches n result then 0 else 1) \<rparr>))
               | _ \<Rightarrow> None)
         else None)"
| "step env (Worker_Deferred k) s =
     (let i = indexer s
      in if k < length (group_tasks (g i))
         then (case task_pc (group_tasks (g i) ! k) of
                 Deferred n err \<Rightarrow>
                   Some (s\<lparr> indexer := set_task_pc k (Exiting err) (flush_deferred n i) \<rparr>)
               | _ \<Rightarrow> None)
         else None)"
| "step env (Worker_Exit k) s =
     (let i = indexer s
      in if k < length (group_tasks (g i))
         then (case (task_pc (group_tasks (g i) ! k), task_bulk (group_tasks (g i) ! k)) of
                 (Exiting err, Some b) \<Rightarrow>
                   (case chan_send (available i) (bulk_Reset b) of
                      None \<Rightarrow> None
                    | Some ch \<Rightarrow>
                        (let i1 = set_task_pc k Finished (i\<lparr> available := ch \<rparr>)
                         in Some (s\<lparr> indexer := i1\<lparr> g := Group_record err (g i1) \<rparr>,
                                     flush_returns := flush_returns s @ [err] \<rparr>)))
               | _ \<Rightarrow> None)
         else None)"
| "step env Call_Close s =
     Some (s\<lparr> closers := closers s @ [\<lparr> closer_ctx = None, closer_pc = CloseCalled \<rparr>] \<rparr>)"
| "step env (Closer_Lock d) s =
     (if d < length (closers s) \<and> closer_pc (closers s ! d) = CloseCalled
      then (case mu_Lock (indexer s) of
              Done i1 \<Rightarrow> Some (set_closer_pc d CloseLocked (s\<lparr> indexer := i1 \<rparr>))
            | _ \<Rightarrow> None)
      else None)"
| "step env (Closer_Begin d) s =
     (if d < length (closers s) \<and> closer_pc (closers s ! d) = CloseLocked
      then (case Close_begin (CloseContext d) (indexer s) of
              Done (first, i1) \<Rightarrow>
                Some (set_closer_pc d (CloseWaiting first)
                        (s\<lparr> indexer := i1,
                            watcher := (if first then Watching d else watcher s) \<rparr>))
            | _ \<Rightarrow> None)
      else None)"
| "step env (Closer_Wait d) s =
     (if d < length (closers s)
      then (case closer_pc (closers s ! d) of
              CloseWaiting first \<Rightarrow>
                (case Close_wait first (indexer s) of
                   Done (err, i1) \<Rightarrow>
                     Some (set_closer_pc d (CloseReturned err) (s\<lparr> indexer := i1 \<rparr>))
                 | _ \<Rightarrow> None)
            | _ \<Rightarrow> None)
      else None)"
| "step env (Cancel_Closer d err) s =
     (if d < length (closers s) \<and> closer_ctx (closers s ! d) = None \<and> context_error err
      then Some (s\<lparr> closers := (closers s)[d := (closers s ! d)\<lparr> closer_ctx := Some err \<rparr>] \<rparr>)
      else None)"
| "step env Watcher_Close s =
     (case watcher s of
        Watching d \<Rightarrow>
          (if d < length (closers s)
              \<and> (closer_ctx (closers s ! d) \<noteq> None
                  \<or> (case closer_pc (closers s ! d) of CloseReturned err \<Rightarrow> True | _ \<Rightarrow> False))
           then Some (s\<lparr> indexer := (indexer s)\<lparr> closed := True \<rparr>, watcher := WatcherDone \<rparr>)
           else None)
      | _ \<Rightarrow> None)"
| "step env Call_Stats s = Some (s\<lparr> stats_calls := stats_calls s @ [StatsCalled] \<rparr>)"
| "step env (Stats_Load k) s =
     (if k < length (stats_calls s)
      then (case Stats_load (indexer s) (stats_calls s ! k) of
              None \<Rightarrow> None
            | Some pc \<Rightarrow> Some (s\<lparr> stats_calls := (stats_calls s)[k := pc] \<rparr>))
      else None)"

text \<open>A run: the steps of a list of actions, one after the other.\<close>

fun run :: "Env \<Rightarrow> action list \<Rightarrow> System \<Rightarrow> System option" where
  "run env [] s = Some s"
| "run env (a # as) s = (case step env a s of None \<Rightarrow> None | Some s' \<Rightarrow> run env as s')"

text \<open>The system around a new indexer.\<close>

definition start :: "Config \<Rightarrow> System option" where
  "start cfg =
     (case New cfg of
        Done i \<Rightarrow> Some \<lparr> indexer = i, callers = [], closers = [], stats_calls = [],
                         timer_goroutines = 0, watcher = NoWatcher, succeeded = 0,
                         unmatched_responses = 0, flush_returns = [] \<rparr>
      | _ \<Rightarrow> None)"

definition run_start :: "Env \<Rightarrow> Config \<Rightarrow> action list \<Rightarrow> System option" where
  "run_start env cfg acts = (case start cfg of None \<Rightarrow> None | Some s0 \<Rightarrow> run env acts s0)"

definition reachable :: "Env \<Rightarrow> Config \<Rightarrow> System \<Rightarrow> bool" where
  "reachable env cfg s = (\<exists>acts s0. start cfg = Some s0 \<and> run env acts s0 = Some s)"

text \<open>
  The goroutines that stand between two counter updates that belong together: the
  callers between the increments of \<open>eventsAdded\<close> and \<open>eventsActive\<close>, and, with its
  number of items, each flush between its update of \<open>eventsFailed\<close> and its deferred
  update of \<open>eventsActive\<close>.
\<close>

definition caller_added :: "caller \<Rightarrow> int" where
  "caller_added c = (if caller_pc c = Added then 1 else 0)"

definition callers_added :: "System \<Rightarrow> int" where
  "callers_added s = sum_list (map caller_added (callers s))"

definition deferred_items :: "task \<Rightarrow> int" where
  "deferred_items t = (case task_pc t of Deferred n err \<Rightarrow> n | _ \<Rightarrow> 0)"

definition flushes_deferred :: "System \<Rightarrow> int" where
  "flushes_deferred s = sum_list (map deferred_items (group_tasks (g (indexer s))))"

definition quiescent :: "System \<Rightarrow> bool" where
  "quiescent s =
     (list_all (\<lambda>c. caller_pc c \<noteq> Added) (callers s)
      \<and> list_all (\<lambda>t. case task_pc t of Deferred n err \<Rightarrow> False | _ \<Rightarrow> True)
            (group_tasks (g (indexer s))))"

text \<open>
  An environment for the runs evaluated below: the document of an event is its message,
  an item is charged the length of its body, and \<open>Add\<close> never fails.
\<close>

definition plain_Env :: Env where
  "plain_Env =
     \<lparr> encoder_AddRaw = (\<lambda>ctx event. Inr (event_Message event)),
       item_bytes = (\<lambda>item. length (item_Body item)),
       Add_error = (\<lambda>item. None) \<rparr>"

definition small_Config :: Config where
  "small_Config = \<lparr> MaxRequests = 1, FlushBytes = 100, FlushInterval = 0 \<rparr>"

definition log_line :: "string \<Rightarrow> APMEvent" where
  "log_line line =
     zero_APMEvent\<lparr> event_Processor := LogProcessor, event_Message := line,
       event_DataStream := \<lparr> DataStream_Type = ''logs'', DataStream_Dataset = ''firehose'',
                              DataStream_Namespace = ''default'' \<rparr> \<rparr>"

text \<open>
  The counter equation with the goroutines that stand between two updates accounted for.
\<close>

definition counters_balanced :: "System \<Rightarrow> bool" where
  "counters_balanced s =
     (eventsAdded (indexer s) + flushes_deferred s =
        eventsActive (indexer s) + succeeded s + eventsFailed (indexer s) + callers_added s)"

text \<open>
  What a part of a call leaves alone: the three counters; and the group, but for new
  goroutines that have not started.
\<close>

definition same_counters :: "Indexer \<Rightarrow> Indexer \<Rightarrow> bool" where
  "same_counters i i' =
     (eventsAdded i' = eventsAdded i \<and> eventsActive i' = eventsActive i
      \<and> eventsFailed i' = eventsFailed i)"

definition group_grows :: "Indexer \<Rightarrow> Indexer \<Rightarrow> bool" where
  "group_grows i i' =
     (group_err (g i') = group_err (g i)
      \<and> (\<exists>new. group_tasks (g i') = group_tasks (g i) @ new
                 \<and> list_all (\<lambda>t. task_pc t = Spawned) new))"

text \<open>
  Whether the context of a flush goroutine is done.  It is the child made in
  \<open>flushActiveLocked\<close>: done when its parent is done, when \<open>i.closed\<close> is closed, and when
  the goroutine has finished.  (The goroutine that waits on \<open>i.closed\<close> to cancel it is
  taken to run at once.)
\<close>

definition flush_ctx_done :: "System \<Rightarrow> task \<Rightarrow> bool" where
  "flush_ctx_done s t =
     (closed (indexer s) \<or> task_pc t = Finished
      \<or> (case task_parent t of
            Background \<Rightarrow> False
          | CloseContext d \<Rightarrow> d < length (closers s) \<and> closer_ctx (closers s ! d) \<noteq> None))"

text \<open>The first error in a list of returns.\<close>

fun first_error :: "error option list \<Rightarrow> error option" where
  "first_error [] = None"
| "first_error (None # rs) = first_error rs"
| "first_error (Some e # rs) = Some e"


text \<open>
  Where the bulk buffers are: in the pool, in the active slot, or with a flush goroutine
  that has not finished.  \<open>buffers_held\<close> lists the buffers by their identities, \<open>held\<close>
  pairs them, as a multiset, with the capacity of the pool.
\<close>

definition task_holds :: "task \<Rightarrow> nat list" where
  "task_holds t =
     (if task_running t then (case task_bulk t of None \<Rightarrow> [] | Some b \<Rightarrow> [bulk_id b]) else [])"

definition buffers_held :: "Indexer \<Rightarrow> nat list" where
  "buffers_held i =
     map bulk_id (chan_buf (available i))
     @ (case active i of None \<Rightarrow> [] | Some b \<Rightarrow> [bulk_id b])
     @ concat (map task_holds (group_tasks (g i)))"

definition held :: "Indexer \<Rightarrow> nat multiset \<times> nat" where
  "held i = (mset (buffers_held i), chan_cap (available i))"

text \<open>
  The timer and the active slot: at most one goroutine started by the timer waits to
  run \<open>flushActive\<close>, and while one does the timer is expired; the slot holds a buffer
  exactly when the timer is armed or such a goroutine waits.
\<close>

definition timer_covers_active :: "System \<Rightarrow> bool" where
  "timer_covers_active s =
     (timer_goroutines s \<le> 1
      \<and> (timer_goroutines s = 1 \<longrightarrow> timer (indexer s) = Some Expired)
      \<and> (active (indexer s) \<noteq> None) =
          (timer (indexer s) = Some Armed \<or> timer_goroutines s = 1))"


text \<open>
  An indexer in the middle of its work, for the calls evaluated below: one buffer of
  one item in the active slot, the timer armed, and a threshold of two bytes.
\<close>

definition filling_indexer :: Indexer where
  "filling_indexer =
     \<lparr> eventsAdded = 1, eventsActive = 1, eventsFailed = 0,
       config = \<lparr> MaxRequests = 1, FlushBytes = 2, FlushInterval = 30 * time_Second \<rparr>,
       available = \<lparr> chan_cap = 1, chan_buf = [] \<rparr>,
       g = \<lparr> group_tasks = [], group_err = None \<rparr>,
       mu_readers = 0, mu_writer = False,
       closing = False, closed = False, activeMu = False,
       active = Some \<lparr> bulk_id = 0,
                       bulk_items = [\<lparr> item_Index = ''logs-firehose-default'',
                                       item_Action = ''create'', item_Body = ''a'' \<rparr>],
                       bulk_len = 1 \<rparr>,
       timer = Some Armed, store_requests = [] \<rparr>"

text \<open>
  The indexer \<open>New\<close> makes from \<open>small_Config\<close>: one empty buffer in the pool, the active
  slot empty, no timer yet.
\<close>

definition fresh_indexer :: Indexer where
  "fresh_indexer =
     \<lparr> eventsAdded = 0, eventsActive = 0, eventsFailed = 0,
       config = \<lparr> MaxRequests = 1, FlushBytes = 100, FlushInterval = 30 * time_Second \<rparr>,
       available = \<lparr> chan_cap = 1,
                     chan_buf = [\<lparr> bulk_id = 0, bulk_items = [], bulk_len = 0 \<rparr>] \<rparr>,
       g = \<lparr> group_tasks = [], group_err = None \<rparr>,
       mu_readers = 0, mu_writer = False,
       closing = False, closed = False, activeMu = False,
       active = None, timer = None, store_requests = [] \<rparr>"


text \<open>
  Schedules for the runs evaluated below.

  \<open>one_event_appended\<close>: one caller submits one event and runs up to the increment of
  \<open>eventsAdded\<close>.

  \<open>failed_flush_then_close\<close>: the caller goes on and returns; the timer fires and
  \<open>flushActive\<close> hands the buffer off; the flush goroutine sends the request, the store
  refuses it with an error, and the goroutine returns the buffer to the pool; then a
  second caller submits an event and returns; \<open>Close\<close> is called, takes
  \<open>mu\<close>, sets \<open>closing\<close>, stops the timer and hands the second buffer off with its own
  context as the parent; the second flush goroutine sends its request.  \<open>Close\<close> now
  waits in \<open>i.g.Wait()\<close>.

  \<open>cancel_during_wait\<close>: the context of that \<open>Close\<close> is cancelled; the watcher closes
  \<open>i.closed\<close>; the request in flight comes back with the context's error; the goroutine
  runs its deferred call and returns the buffer.

  \<open>two_events_flushed\<close>: one caller submits two events and returns; the timer fires and
  the buffer is handed off; the store answers the request with 201 for the first item
  and 409 for the second; the flush goroutine runs to its end.

  \<open>two_failures_for_one_item\<close>: one event is appended and its buffer handed off by the
  timer; the store answers the request of one item with two entries, both 409.

  \<open>stats_around_append\<close>: a call of \<open>Stats\<close> loads \<open>eventsAdded\<close>; then a caller submits
  one event and runs to the end of \<open>processEvent\<close>; then \<open>Stats\<close> loads the other two
  counters and returns.
\<close>

definition one_event_appended :: "action list" where
  "one_event_appended =
     [Call_ProcessBatch [log_line ''a''], Caller_Enter 0, Caller_Lock 0, Caller_Append 0 False]"

definition failed_flush_then_close :: "action list" where
  "failed_flush_then_close =
     one_event_appended
     @ [Caller_Finish 0, Caller_Lock 0, Timer_Fire, Timer_FlushActive, Worker_Start 0,
        Worker_Respond 0 (Inl (ErrorString ''connection refused'')), Worker_Deferred 0,
        Worker_Exit 0,
        Call_ProcessBatch [log_line ''b''], Caller_Enter 1, Caller_Lock 1,
        Caller_Append 1 False, Caller_Finish 1, Caller_Lock 1,
        Call_Close, Closer_Lock 0, Closer_Begin 0, Worker_Start 1]"

definition cancel_during_wait :: "action list" where
  "cancel_during_wait =
     [Cancel_Closer 0 Canceled, Watcher_Close, Worker_Respond 1 (Inl Canceled),
      Worker_Deferred 1, Worker_Exit 1]"

definition conflict_entry :: "string \<times> BulkIndexerResponseItem" where
  "conflict_entry =
     (''create'', \<lparr> info_Status = 409, info_Error_Type = ''version_conflict_engine_exception'',
                    info_Error_Reason = ''document already exists'' \<rparr>)"

definition two_events_flushed :: "action list" where
  "two_events_flushed =
     [Call_ProcessBatch [log_line ''a'', log_line ''b''], Caller_Enter 0,
      Caller_Lock 0, Caller_Append 0 False, Caller_Finish 0,
      Caller_Lock 0, Caller_Append 0 False, Caller_Finish 0, Caller_Lock 0,
      Timer_Fire, Timer_FlushActive, Worker_Start 0,
      Worker_Respond 0 (Inr [[(''create'', \<lparr> info_Status = 201, info_Error_Type = [],
                                            info_Error_Reason = [] \<rparr>)],
                             [conflict_entry]]),
      Worker_Deferred 0, Worker_Exit 0]"

definition two_failures_for_one_item :: "action list" where
  "two_failures_for_one_item =
     one_event_appended
     @ [Caller_Finish 0, Caller_Lock 0, Timer_Fire, Timer_FlushActive, Worker_Start 0,
        Worker_Respond 0 (Inr [[conflict_entry], [conflict_entry]]),
        Worker_Deferred 0, Worker_Exit 0]"

definition stats_around_append :: "action list" where
  "stats_around_append =
     [Call_Stats, Stats_Load 0] @ one_event_appended @ [Caller_Finish 0, Stats_Load 0, Stats_Load 0]"


section \<open>Properties of the firehose handler\<close>

subsection \<open>processFirehoseLog\<close>

lemma lines_loop_eq:
  "lines_loop fh event splitLines batch =
     batch @ map (\<lambda>line. event\<lparr> event_Timestamp := Unix (firehose_Timestamp fh sdiv 1000) 0,
                                 event_Processor := LogProcessor,
                                 event_Message := line \<rparr>)
               (takeWhile (\<lambda>line. line \<noteq> []) splitLines)"
  by (induction splitLines arbitrary: event batch) (simp_all add: Let_def)

lemma records_loop_decoded:
  "map (\<lambda>r. DecodeString (record_Data r)) rs = map Inr decoded \<Longrightarrow>
   records_loop DecodeString fh baseEvent rs batch =
     Inr (batch @ concat (map (\<lambda>recordDec.
            map (\<lambda>line. baseEvent\<lparr> event_Timestamp := Unix (firehose_Timestamp fh sdiv 1000) 0,
                                     event_Processor := LogProcessor,
                                     event_Message := line \<rparr>)
                (takeWhile (\<lambda>line. line \<noteq> []) (Split recordDec (CHR 0x0A)))) decoded))"
proof (induction rs arbitrary: decoded batch)
  case Nil
  then show ?case by simp
next
  case (Cons r rs)
  then obtain d ds where d: "decoded = d # ds" "DecodeString (record_Data r) = Inr d"
    "map (\<lambda>r. DecodeString (record_Data r)) rs = map Inr ds"
    by (cases decoded) auto
  show ?case
    using Cons.IH [OF d(3)] by (simp add: d lines_loop_eq)
qed

lemma records_loop_decode_error:
  "map (\<lambda>r. DecodeString (record_Data r)) rs = map Inr decoded @ Inl err # rest \<Longrightarrow>
   records_loop DecodeString fh baseEvent rs batch = Inl err"
proof (induction rs arbitrary: decoded batch)
  case Nil
  then show ?case by simp
next
  case (Cons r rs)
  show ?case
  proof (cases decoded)
    case Nil
    with Cons.prems show ?thesis by simp
  next
    case (Cons d ds)
    with Cons.prems have "DecodeString (record_Data r) = Inr d"
      and "map (\<lambda>r. DecodeString (record_Data r)) rs = map Inr ds @ Inl err # rest"
      by simp_all
    then show ?thesis using Cons.IH by simp
  qed
qed

lemma processFirehoseLog_decode_error:
  "map (\<lambda>r. DecodeString (record_Data r)) (firehose_Records fh) = map Inr decoded @ Inl err # rest
   \<Longrightarrow> processFirehoseLog DecodeString fh baseEvent = Inl err"
  unfolding processFirehoseLog_def by (rule records_loop_decode_error)

lemma decode_scenario_record:
  "StdEncoding_DecodeString ''bGluZTEKbGluZTI='' = Inr ''line1\<newline>line2''"
  by (simp add: StdEncoding_DecodeString_def encodeStd_def char_of_def bit_iff_odd)

lemma decode_blank_line_record:
  "StdEncoding_DecodeString ''YQoKYg=='' = Inr ''a\<newline>\<newline>b''"
  by (simp add: StdEncoding_DecodeString_def encodeStd_def char_of_def bit_iff_odd)

text \<open>
  C1, as the code has it.  When every record decodes, \<open>processFirehoseLog\<close> returns, in
  record order, one copy of the base event for each line of the decoded record that
  comes before the record's first empty line, with \<open>Timestamp\<close> the envelope's timestamp
  divided by 1000 (in seconds), \<open>Processor = log\<close> and \<open>Message\<close> the line.  The loop
  leaves a record at its first empty line, so the lines after it are not appended.
\<close>

theorem processFirehoseLog_lines_before_first_empty:
  "map (\<lambda>r. DecodeString (record_Data r)) (firehose_Records fh) = map Inr decoded \<Longrightarrow>
   processFirehoseLog DecodeString fh baseEvent =
     Inr (concat (map (\<lambda>recordDec.
            map (\<lambda>line. baseEvent\<lparr> event_Timestamp := Unix (firehose_Timestamp fh sdiv 1000) 0,
                                     event_Processor := LogProcessor,
                                     event_Message := line \<rparr>)
                (takeWhile (\<lambda>line. line \<noteq> []) (Split recordDec (CHR 0x0A)))) decoded))"
  unfolding processFirehoseLog_def by (simp add: records_loop_decoded)

text \<open>
  The specification's firehose scenario: the record \<open>bGluZTEKbGluZTI=\<close> decodes to
  \<open>line1\<close>, newline, \<open>line2\<close> and gives exactly two events.
\<close>

theorem processFirehoseLog_two_lines_witness:
  "processFirehoseLog StdEncoding_DecodeString
     \<lparr> firehose_RequestID = ''req-1'', firehose_Timestamp = 1600000000000,
       firehose_Records = [\<lparr> record_Data = ''bGluZTEKbGluZTI='' \<rparr>] \<rparr> zero_APMEvent =
   Inr [zero_APMEvent\<lparr> event_Timestamp := Unix 1600000000 0, event_Processor := LogProcessor,
                        event_Message := ''line1'' \<rparr>,
        zero_APMEvent\<lparr> event_Timestamp := Unix 1600000000 0, event_Processor := LogProcessor,
                        event_Message := ''line2'' \<rparr>]"
  using processFirehoseLog_lines_before_first_empty [of StdEncoding_DecodeString
     "\<lparr> firehose_RequestID = ''req-1'', firehose_Timestamp = 1600000000000,
       firehose_Records = [\<lparr> record_Data = ''bGluZTEKbGluZTI='' \<rparr>] \<rparr>"
     "[''line1\<newline>line2'']" zero_APMEvent]
  by (simp add: decode_scenario_record signed_divide_int_def)

text \<open>
  C1 as stated fails: the record \<open>YQoKYg==\<close> decodes to the three lines \<open>a\<close>, empty,
  \<open>b\<close>.  The code returns the event of \<open>a\<close> alone, where one event for each non-empty
  line would be the events of \<open>a\<close> and \<open>b\<close>.
\<close>

theorem processFirehoseLog_interior_empty_line_counterexample:
  "StdEncoding_DecodeString ''YQoKYg=='' = Inr ''a\<newline>\<newline>b''
   \<and> processFirehoseLog StdEncoding_DecodeString
       \<lparr> firehose_RequestID = ''req-1'', firehose_Timestamp = 1600000000000,
         firehose_Records = [\<lparr> record_Data = ''YQoKYg=='' \<rparr>] \<rparr> zero_APMEvent =
     Inr [zero_APMEvent\<lparr> event_Timestamp := Unix 1600000000 0, event_Processor := LogProcessor,
                          event_Message := ''a'' \<rparr>]
   \<and> spec_record_events
       \<lparr> firehose_RequestID = ''req-1'', firehose_Timestamp = 1600000000000,
         firehose_Records = [\<lparr> record_Data = ''YQoKYg=='' \<rparr>] \<rparr> zero_APMEvent
       ''a\<newline>\<newline>b'' =
     [zero_APMEvent\<lparr> event_Timestamp := Unix 1600000000 0, event_Processor := LogProcessor,
                      event_Message := ''a'' \<rparr>,
      zero_APMEvent\<lparr> event_Timestamp := Unix 1600000000 0, event_Processor := LogProcessor,
                      event_Message := ''b'' \<rparr>]"
  by (simp add: decode_blank_line_record processFirehoseLog_def spec_record_events_def
      log_event_def signed_divide_int_def)

subsection \<open>Handler\<close>

lemma requestMetadata_header_only:
  "requestMetadata (c\<lparr> Context_Authentication := a,
                       Context_Request := (Context_Request c)\<lparr> Request_Context := x \<rparr> \<rparr>) =
   requestMetadata c"
  by (simp add: requestMetadata_def)

lemma handle_reaches_ProcessBatch:
  assumes "Header_Get (Request_Header (Context_Request c)) ''X-Amz-Firehose-Access-Key'' \<noteq> []"
    and "authenticator (Request_Context (Context_Request c)) (headers_APIKey lib)
           (Header_Get (Request_Header (Context_Request c)) ''X-Amz-Firehose-Access-Key'')
         = Inr (details, authorizer)"
    and "Request_Method (Context_Request c) = ''POST''"
    and "json_Decode lib (Request_Body (Context_Request c)) = Inr firehose"
    and "processFirehoseLog (base64_DecodeString lib) firehose (requestMetadata c) = Inr batch"
    and "processor (ContextWithAuthorizer lib (Request_Context (Context_Request c)) authorizer)
           batch p = (r, p')"
  shows "handle lib processor authenticator c p =
     (c\<lparr> Context_Authentication := Some details,
         Context_Request := (Context_Request c)\<lparr> Request_Context :=
            ContextWithAuthorizer lib (Request_Context (Context_Request c)) authorizer \<rparr> \<rparr>, p',
      (case r of
         None \<Rightarrow> Inr \<lparr> result_ErrorMessage = [],
                   result_RequestID = firehose_RequestID firehose,
                   result_Timestamp = firehose_Timestamp firehose \<rparr>
       | Some err \<Rightarrow>
           (if err = ErrChannelClosed
            then Inl (requestError IDResponseErrorsShuttingDown
                   (ErrorString ''server is shutting down''))
            else if err = ErrFull then Inl (requestError IDResponseErrorsFullQueue err)
            else Inl (passedError err))))"
  using assms by (cases r) (simp_all add: handle_def Let_def requestMetadata_header_only)

text \<open>
  C9.  For a request that reaches \<open>ProcessBatch\<close> (access key present and accepted,
  method POST, envelope and records decoded), the result the handler stores is decided
  by what \<open>ProcessBatch\<close> returns: \<open>ErrChannelClosed\<close> gives the ShuttingDown result,
  \<open>ErrFull\<close> the FullQueue result, every other error the Internal result, and no
  error gives status 200 with a body echoing the envelope's request id and timestamp.
\<close>

theorem Handler_maps_ProcessBatch_outcome:
  assumes "Header_Get (Request_Header (Context_Request c)) ''X-Amz-Firehose-Access-Key'' \<noteq> []"
    and "authenticator (Request_Context (Context_Request c)) (headers_APIKey lib)
           (Header_Get (Request_Header (Context_Request c)) ''X-Amz-Firehose-Access-Key'')
         = Inr (details, authorizer)"
    and "Request_Method (Context_Request c) = ''POST''"
    and "json_Decode lib (Request_Body (Context_Request c)) = Inr firehose"
    and "processFirehoseLog (base64_DecodeString lib) firehose (requestMetadata c) = Inr batch"
    and "processor (ContextWithAuthorizer lib (Request_Context (Context_Request c)) authorizer)
           batch p = (r, p')"
  shows "Context_Result (fst (Handler processor authenticator lib c p)) =
     (case r of
        None \<Rightarrow>
          (Context_Result c)\<lparr> Result_ID := IDResponseValidAccepted, Result_StatusCode := 200,
            Result_Body := Some \<lparr> result_ErrorMessage = [],
                                  result_RequestID = firehose_RequestID firehose,
                                  result_Timestamp = firehose_Timestamp firehose \<rparr> \<rparr>
      | Some err \<Rightarrow>
          (if err = ErrChannelClosed
           then (Context_Result c)\<lparr> Result_ID := IDResponseErrorsShuttingDown,
                  Result_StatusCode := StatusCodeOf lib IDResponseErrorsShuttingDown,
                  Result_Err := Some (requestError IDResponseErrorsShuttingDown
                                        (ErrorString ''server is shutting down'')) \<rparr>
           else if err = ErrFull
           then (Context_Result c)\<lparr> Result_ID := IDResponseErrorsFullQueue,
                  Result_StatusCode := StatusCodeOf lib IDResponseErrorsFullQueue,
                  Result_Err := Some (requestError IDResponseErrorsFullQueue ErrFull) \<rparr>
           else (Context_Result c)\<lparr> Result_ID := IDResponseErrorsInternal,
                  Result_StatusCode := StatusCodeOf lib IDResponseErrorsInternal,
                  Result_Err := Some (passedError err) \<rparr>))"
proof -
  note h = handle_reaches_ProcessBatch
    [where processor = processor and authenticator = authenticator, OF assms]
  show ?thesis
    by (cases r) (simp_all add: Handler_def h Let_def SetWithError_def SetWithBody_def)
qed

subsection \<open>The firehose scenario of the specification, evaluated\<close>

lemma scenario_requestMetadata:
  "requestMetadata scenario_Context =
     \<lparr> event_Timestamp = ZeroTime, event_Processor = NoProcessor, event_Message = [],
       event_DataStream = \<lparr> DataStream_Type = ''logs'', DataStream_Dataset = ''firehose'',
                            DataStream_Namespace = [] \<rparr>,
       event_Cloud_Origin = Some \<lparr> CloudOrigin_AccountID = [], CloudOrigin_Region = [] \<rparr>,
       event_Service_Origin = Some \<lparr> ServiceOrigin_ID = [], ServiceOrigin_Name = [] \<rparr> \<rparr>"
  by (simp add: requestMetadata_def scenario_Context_def Header_Get_def parseARN_def
      zero_APMEvent_def LogsType_def dataset_def Let_def eval_nat_numeral)

lemma scenario_key:
  "Header_Get (Request_Header (Context_Request scenario_Context))
     ''X-Amz-Firehose-Access-Key'' \<noteq> []"
  by (simp add: scenario_Context_def Header_Get_def)

lemma scenario_auth:
  "accepting_authenticator (Request_Context (Context_Request scenario_Context))
     (headers_APIKey scenario_Lib)
     (Header_Get (Request_Header (Context_Request scenario_Context))
        ''X-Amz-Firehose-Access-Key'') = Inr ((), ())"
  by (simp add: accepting_authenticator_def)

lemma scenario_post: "Request_Method (Context_Request scenario_Context) = ''POST''"
  by (simp add: scenario_Context_def)

lemma scenario_body:
  "json_Decode scenario_Lib (Request_Body (Context_Request scenario_Context)) =
     Inr scenario_envelope"
  by (simp add: scenario_Lib_def scenario_Context_def scenario_json_Decode_def)

lemma scenario_batch:
  "processFirehoseLog (base64_DecodeString scenario_Lib) scenario_envelope
     (requestMetadata scenario_Context) =
     Inr [(requestMetadata scenario_Context)\<lparr> event_Timestamp := Unix 1600000000 0,
            event_Processor := LogProcessor, event_Message := ''line1'' \<rparr>,
          (requestMetadata scenario_Context)\<lparr> event_Timestamp := Unix 1600000000 0,
            event_Processor := LogProcessor, event_Message := ''line2'' \<rparr>]"
  by (simp add: processFirehoseLog_def scenario_envelope_def scenario_Lib_def
      decode_scenario_record signed_divide_int_def)

lemma scenario_recorded:
  "recording_processor
     (ContextWithAuthorizer scenario_Lib (Request_Context (Context_Request scenario_Context)) ())
     batch [] = (None, [batch])"
  by (simp add: recording_processor_def)

lemma scenario_refused:
  "refusing_processor err
     (ContextWithAuthorizer scenario_Lib (Request_Context (Context_Request scenario_Context)) ())
     batch [] = (Some err, [])"
  by (simp add: refusing_processor_def)

text \<open>
  The request of the specification's firehose scenario, with a processor that accepts
  the batch: the result is the Accepted id with status 200 and the body echoing
  \<open>req-1\<close> and the timestamp.
\<close>

theorem Handler_firehose_scenario_witness:
  "Context_Result (fst (Handler recording_processor accepting_authenticator scenario_Lib
                          scenario_Context [])) =
     \<lparr> Result_ID = IDResponseValidAccepted, Result_StatusCode = 200,
       Result_Body = Some \<lparr> result_ErrorMessage = [], result_RequestID = ''req-1'',
                             result_Timestamp = 1600000000000 \<rparr>,
       Result_Err = None \<rparr>"
  using Handler_maps_ProcessBatch_outcome
    [where processor = recording_processor and authenticator = accepting_authenticator,
     OF scenario_key scenario_auth scenario_post scenario_body scenario_batch scenario_recorded]
  by (simp add: scenario_envelope_def scenario_Context_def)

text \<open>The same request: the processor received one batch of two log events.\<close>

lemma Handler_firehose_scenario_enqueued:
  "snd (Handler recording_processor accepting_authenticator scenario_Lib scenario_Context []) =
     [[(requestMetadata scenario_Context)\<lparr> event_Timestamp := Unix 1600000000 0,
          event_Processor := LogProcessor, event_Message := ''line1'' \<rparr>,
       (requestMetadata scenario_Context)\<lparr> event_Timestamp := Unix 1600000000 0,
          event_Processor := LogProcessor, event_Message := ''line2'' \<rparr>]]"
  using handle_reaches_ProcessBatch
    [where processor = recording_processor and authenticator = accepting_authenticator,
     OF scenario_key scenario_auth scenario_post scenario_body scenario_batch scenario_recorded]
  by (simp add: Handler_def)

text \<open>The same request with processors that refuse the batch.\<close>

lemma Handler_firehose_scenario_refused:
  "Result_ID (Context_Result (fst (Handler (refusing_processor ErrChannelClosed)
      accepting_authenticator scenario_Lib scenario_Context []))) = IDResponseErrorsShuttingDown"
  "Result_ID (Context_Result (fst (Handler (refusing_processor ErrFull)
      accepting_authenticator scenario_Lib scenario_Context []))) = IDResponseErrorsFullQueue"
  "Result_ID (Context_Result (fst (Handler (refusing_processor ErrClosed)
      accepting_authenticator scenario_Lib scenario_Context []))) = IDResponseErrorsInternal"
  using handle_reaches_ProcessBatch
    [where processor = "refusing_processor ErrChannelClosed"
       and authenticator = accepting_authenticator,
     OF scenario_key scenario_auth scenario_post scenario_body scenario_batch scenario_refused]
    handle_reaches_ProcessBatch
    [where processor = "refusing_processor ErrFull"
       and authenticator = accepting_authenticator,
     OF scenario_key scenario_auth scenario_post scenario_body scenario_batch scenario_refused]
    handle_reaches_ProcessBatch
    [where processor = "refusing_processor ErrClosed"
       and authenticator = accepting_authenticator,
     OF scenario_key scenario_auth scenario_post scenario_body scenario_batch scenario_refused]
  by (simp_all add: Handler_def SetWithError_def)

section \<open>Properties of the model indexer\<close>

subsection \<open>New\<close>

lemma New_loop_fills:
  "0 \<le> k \<Longrightarrow> k \<le> n \<Longrightarrow> length (chan_buf ch) + nat (n - k) \<le> chan_cap ch \<Longrightarrow>
   New_loop k n ch = Done (ch\<lparr> chan_buf := chan_buf ch @ map newBulkIndexer [nat k..<nat n] \<rparr>)"
proof (induction k n ch rule: New_loop.induct)
  case (1 k n ch)
  show ?case
  proof (cases "k < n")
    case False
    with "1.prems" have "k = n" by simp
    then show ?thesis by (simp add: New_loop.simps [of n n ch])
  next
    case True
    let ?ch' = "ch\<lparr> chan_buf := chan_buf ch @ [newBulkIndexer (nat k)] \<rparr>"
    from True "1.prems" have room: "length (chan_buf ch) < chan_cap ch" by linarith
    then have send: "chan_send ch (newBulkIndexer (nat k)) = Some ?ch'"
      by (simp add: chan_send_def)
    from True "1.prems" have le: "length (chan_buf ?ch') + nat (n - (k + 1)) \<le> chan_cap ?ch'"
      by simp
    from True "1.prems" have k1: "0 \<le> k + 1" "k + 1 \<le> n" by simp_all
    have step: "New_loop (k + 1) n ?ch' =
            Done (?ch'\<lparr> chan_buf := chan_buf ?ch' @ map newBulkIndexer [nat (k + 1)..<nat n] \<rparr>)"
      by (rule "1.IH" [OF True send k1 le])
    from True "1.prems" have upt: "[nat k..<nat n] = nat k # [nat (k + 1)..<nat n]"
      by (simp add: upt_conv_Cons nat_add_distrib)
    have "New_loop k n ch = New_loop (k + 1) n ?ch'"
      using True send by (simp add: New_loop.simps [of k n ch])
    also note step
    also have "?ch'\<lparr> chan_buf := chan_buf ?ch' @ map newBulkIndexer [nat (k + 1)..<nat n] \<rparr> =
        ch\<lparr> chan_buf := chan_buf ch @ map newBulkIndexer [nat k..<nat n] \<rparr>"
      by (simp add: upt)
    finally show ?thesis .
  qed
qed

lemma New_loop_from_empty:
  "0 < m \<Longrightarrow>
   New_loop 0 m (make_chan m) =
     Done \<lparr> chan_cap = nat m, chan_buf = map newBulkIndexer [0..<nat m] \<rparr>"
  using New_loop_fills [of 0 m "make_chan m"] by (simp add: make_chan_def)

text \<open>The indexer \<open>New\<close> returns, for the proofs about runs below.\<close>

lemma New_eq:
  "New cfg =
     Done \<lparr> eventsAdded = 0, eventsActive = 0, eventsFailed = 0,
            config = \<lparr> MaxRequests = (if MaxRequests cfg \<le> 0 then 10 else MaxRequests cfg),
                       FlushBytes = (if FlushBytes cfg \<le> 0 then 5 * 1024 * 1024
                                     else FlushBytes cfg),
                       FlushInterval = (if FlushInterval cfg \<le> 0 then 30 * time_Second
                                        else FlushInterval cfg) \<rparr>,
            available =
              \<lparr> chan_cap = nat (if MaxRequests cfg \<le> 0 then 10 else MaxRequests cfg),
                chan_buf = map newBulkIndexer
                  [0..<nat (if MaxRequests cfg \<le> 0 then 10 else MaxRequests cfg)] \<rparr>,
            g = \<lparr> group_tasks = [], group_err = None \<rparr>,
            mu_readers = 0, mu_writer = False,
            closing = False, closed = False, activeMu = False,
            active = None, timer = None, store_requests = [] \<rparr>"
  by (cases cfg) (simp add: New_def New_loop_from_empty)

text \<open>
  C7.  \<open>New\<close> returns an indexer whose configuration has \<open>MaxRequests\<close> replaced by 10,
  \<open>FlushBytes\<close> by 5 * 1024 * 1024 and \<open>FlushInterval\<close> by 30 seconds where the given
  value is zero or negative; whose idle pool is a channel of capacity \<open>MaxRequests\<close>
  holding exactly that many new bulk buffers; and whose active slot is empty (the timer
  is unset, the counters are zero).  The loop that fills the channel never blocks.
\<close>

theorem New_normalizes_and_fills_pool:
  "New cfg =
     Done \<lparr> eventsAdded = 0, eventsActive = 0, eventsFailed = 0,
            config = \<lparr> MaxRequests = (if MaxRequests cfg \<le> 0 then 10 else MaxRequests cfg),
                       FlushBytes = (if FlushBytes cfg \<le> 0 then 5 * 1024 * 1024
                                     else FlushBytes cfg),
                       FlushInterval = (if FlushInterval cfg \<le> 0 then 30 * time_Second
                                        else FlushInterval cfg) \<rparr>,
            available =
              \<lparr> chan_cap = nat (if MaxRequests cfg \<le> 0 then 10 else MaxRequests cfg),
                chan_buf = map newBulkIndexer
                  [0..<nat (if MaxRequests cfg \<le> 0 then 10 else MaxRequests cfg)] \<rparr>,
            g = \<lparr> group_tasks = [], group_err = None \<rparr>,
            mu_readers = 0, mu_writer = False,
            closing = False, closed = False, activeMu = False,
            active = None, timer = None, store_requests = [] \<rparr>"
  by (cases cfg) (simp add: New_def New_loop_from_empty)

text \<open>The zero configuration: every default applies, and ten buffers are pooled.\<close>

theorem New_zero_config_witness:
  "New \<lparr> MaxRequests = 0, FlushBytes = 0, FlushInterval = 0 \<rparr> =
     Done \<lparr> eventsAdded = 0, eventsActive = 0, eventsFailed = 0,
            config = \<lparr> MaxRequests = 10, FlushBytes = 5242880, FlushInterval = 30000000000 \<rparr>,
            available =
              \<lparr> chan_cap = 10,
                chan_buf = [newBulkIndexer 0, newBulkIndexer 1, newBulkIndexer 2, newBulkIndexer 3,
                            newBulkIndexer 4, newBulkIndexer 5, newBulkIndexer 6, newBulkIndexer 7,
                            newBulkIndexer 8, newBulkIndexer 9] \<rparr>,
            g = \<lparr> group_tasks = [], group_err = None \<rparr>,
            mu_readers = 0, mu_writer = False,
            closing = False, closed = False, activeMu = False,
            active = None, timer = None, store_requests = [] \<rparr>"
  using New_normalizes_and_fills_pool [of "\<lparr> MaxRequests = 0, FlushBytes = 0, FlushInterval = 0 \<rparr>"]
  by (simp add: time_Second_def upt_rec [of _ "numeral _"] newBulkIndexer_def eval_nat_numeral)

subsection \<open>flush\<close>

lemma info_loop_count:
  "info_loop item k =
     k + int (length (filter (\<lambda>(action, info). info_Status info > 201 \<or> info_Error_Type info \<noteq> []) item))"
  by (induction item k rule: info_loop.induct) auto

lemma items_loop_count:
  "items_loop resp k =
     k + int (length (filter (\<lambda>(action, info). info_Status info > 201 \<or> info_Error_Type info \<noteq> [])
                        (concat resp)))"
  by (induction resp k rule: items_loop.induct) (simp_all add: info_loop_count)

text \<open>
  C5.  \<open>flush\<close> on a buffer with no items returns nil and changes nothing: no request
  goes to the store.  On a buffer with \<open>n > 0\<close> items it issues one request; when the
  request succeeds it returns nil, adds to \<open>eventsFailed\<close> the number of response items
  whose status is greater than 201 or whose error type is not empty, and subtracts \<open>n\<close>
  from \<open>eventsActive\<close>; when the request fails it returns the error, adds \<open>n\<close> to
  \<open>eventsFailed\<close> and subtracts \<open>n\<close> from \<open>eventsActive\<close>.
\<close>

theorem flush_counts:
  "flush result (Some b) i =
     (if bulk_Items b = 0 then Done (None, i)
      else (case result of
              Inl err \<Rightarrow>
                Done (Some err,
                  i\<lparr> store_requests := store_requests i @ [bulk_items b],
                     eventsFailed := eventsFailed i + bulk_Items b,
                     eventsActive := eventsActive i - bulk_Items b \<rparr>)
            | Inr resp \<Rightarrow>
                Done (None,
                  i\<lparr> store_requests := store_requests i @ [bulk_items b],
                     eventsFailed := eventsFailed i
                       + int (length (filter
                           (\<lambda>(action, info). info_Status info > 201 \<or> info_Error_Type info \<noteq> [])
                           (concat resp))),
                     eventsActive := eventsActive i - bulk_Items b \<rparr>)))"
  by (cases result)
     (simp_all add: flush_def flush_result_def flush_deferred_def Let_def items_loop_count)

text \<open>
  The specification's scenario: ten items, the store answers 201 for all but the fourth,
  which has status 409.
\<close>

theorem flush_per_item_failure_witness:
  "flush
     (Inr (replicate 3 [(''create'', \<lparr> info_Status = 201, info_Error_Type = [],
                                        info_Error_Reason = [] \<rparr>)]
           @ [[(''create'', \<lparr> info_Status = 409,
                               info_Error_Type = ''version_conflict_engine_exception'',
                               info_Error_Reason = ''document already exists'' \<rparr>)]]
           @ replicate 6 [(''create'', \<lparr> info_Status = 201, info_Error_Type = [],
                                          info_Error_Reason = [] \<rparr>)]))
     (Some \<lparr> bulk_id = 0,
             bulk_items = replicate 10 \<lparr> item_Index = ''logs-firehose-default'',
                                         item_Action = ''create'', item_Body = ''{}'' \<rparr>,
             bulk_len = 100 \<rparr>)
     \<lparr> eventsAdded = 10, eventsActive = 10, eventsFailed = 0,
       config = \<lparr> MaxRequests = 1, FlushBytes = 100, FlushInterval = 10 * time_Second \<rparr>,
       available = \<lparr> chan_cap = 1, chan_buf = [] \<rparr>,
       g = \<lparr> group_tasks = [], group_err = None \<rparr>,
       mu_readers = 0, mu_writer = False,
       closing = False, closed = False, activeMu = False,
       active = None, timer = Some Stopped, store_requests = [] \<rparr> =
   Done (None,
     \<lparr> eventsAdded = 10, eventsActive = 0, eventsFailed = 1,
       config = \<lparr> MaxRequests = 1, FlushBytes = 100, FlushInterval = 10 * time_Second \<rparr>,
       available = \<lparr> chan_cap = 1, chan_buf = [] \<rparr>,
       g = \<lparr> group_tasks = [], group_err = None \<rparr>,
       mu_readers = 0, mu_writer = False,
       closing = False, closed = False, activeMu = False,
       active = None, timer = Some Stopped,
       store_requests = [replicate 10 \<lparr> item_Index = ''logs-firehose-default'',
                                         item_Action = ''create'', item_Body = ''{}'' \<rparr>] \<rparr>)"
  by (subst flush_counts) (simp add: bulk_Items_def)

subsection \<open>processEvent\<close>

lemma processEvent_encode_index:
  "processEvent_encode env ctx event =
     (case encoder_AddRaw env ctx event of
        Inl err \<Rightarrow> Inl err
      | Inr doc \<Rightarrow>
          Inr (\<lparr> reader_buf = doc,
                 reader_indexBuilder =
                   DataStream_Type (event_DataStream event) @ ''-''
                   @ DataStream_Dataset (event_DataStream event) @ ''-''
                   @ DataStream_Namespace (event_DataStream event) \<rparr>,
               DataStream_Type (event_DataStream event) @ ''-''
               @ DataStream_Dataset (event_DataStream event) @ ''-''
               @ DataStream_Namespace (event_DataStream event)))"
  by (simp add: processEvent_encode_def getPooledReader_def Let_def split: sum.splits)

lemma processEvent_finish_eq:
  "processEvent_finish i =
     (case active i of
        None \<Rightarrow> Panic
      | Some b \<Rightarrow>
     (if bulk_Len b \<ge> FlushBytes (config i)
      then (case timer i of
              None \<Rightarrow> Panic
            | Some t \<Rightarrow>
                (if t = Armed
                 then Done (i\<lparr> eventsActive := eventsActive i + 1,
                               timer := Some Stopped,
                               active := None,
                               g := (g i)\<lparr> group_tasks := group_tasks (g i)
                                      @ [\<lparr> task_bulk = Some b, task_parent = Background,
                                           task_pc = Spawned \<rparr>] \<rparr>,
                               activeMu := False \<rparr>)
                 else Done (i\<lparr> eventsActive := eventsActive i + 1, activeMu := False \<rparr>)))
      else Done (i\<lparr> eventsActive := eventsActive i + 1, activeMu := False \<rparr>)))"
proof (cases "active i")
  case None
  then show ?thesis by (simp add: processEvent_finish_def Let_def)
next
  case (Some b)
  show ?thesis
  proof (cases "timer i")
    case None
    with Some show ?thesis
      by (simp add: processEvent_finish_def Let_def timer_Stop_def)
  next
    case (Some t)
    with \<open>active i = Some b\<close> show ?thesis
      by (cases t)
         (simp_all add: processEvent_finish_def Let_def timer_Stop_def flushActiveLocked_def
            Group_Go_def)
  qed
qed

lemma timer_Stop_Done:
  "timer_Stop t = Done (stopped, t') \<Longrightarrow>
   (stopped \<longrightarrow> t = Some Armed \<and> t' = Some Stopped) \<and> (\<not> stopped \<longrightarrow> t' = t \<and> t \<noteq> Some Armed \<and> t \<noteq> None)"
  by (auto simp: timer_Stop_def split: option.splits timer_state.splits)

lemma processEvent_select_active:
  "active i = Some b \<Longrightarrow> processEvent_select ctx pick i = Done (None, i)"
  by (simp add: processEvent_select_def)

lemma processEvent_select_cases:
  "processEvent_select ctx pick i = Done (None, i1) \<Longrightarrow>
   (\<exists>b. active i1 = Some b) \<and> g i1 = g i"
  by (auto simp: processEvent_select_def take_available_def
      split: if_splits option.splits list.splits)

lemma processEvent_append_Done:
  assumes "processEvent_append env ctx pick r index i = Done (None, i1)"
  shows "\<exists>b. active i1 = Some b \<and> bulk_items b \<noteq> []
            \<and> last (bulk_items b) = \<lparr> item_Index = index, item_Action = ''create'',
                                       item_Body = reader_buf r \<rparr>
            \<and> g i1 = g i"
  using assms
  by (auto simp: processEvent_append_def bulk_Add_def
      split: outcome.splits option.splits sum.splits prod.splits
      dest!: processEvent_select_cases)

lemma processEvent_finish_Done:
  assumes "processEvent_finish i1 = Done i2" and "active i1 = Some b"
  shows "active i2 = Some b \<and> g i2 = g i1
         \<or> active i2 = None
           \<and> group_tasks (g i2) = group_tasks (g i1)
                @ [\<lparr> task_bulk = Some b, task_parent = Background, task_pc = Spawned \<rparr>]"
  using assms
  by (auto simp: processEvent_finish_eq split: if_splits option.splits)



text \<open>
  C8.  \<open>processEvent\<close> on an event that encodes to \<open>doc\<close>, with \<open>activeMu\<close> free and a
  buffer \<open>b\<close> to append to (in the active slot, or first in the pool with the slot empty
  and the select taking it), when \<open>Add\<close> accepts the item: it returns nil, and \<open>b\<close> has
  got exactly one more item, at its end, whose index is the event's
  \<open>Type-Dataset-Namespace\<close>, whose action is \<open>create\<close> and whose body is \<open>doc\<close>.  The
  buffer is in the active slot afterwards, or, when it has reached \<open>FlushBytes\<close> and the
  timer was armed, with a new flush goroutine.  (With the threshold reached and no
  timer the call stops on the nil timer; this cannot happen after a buffer was taken
  from the pool, which arms the timer.)
\<close>

theorem processEvent_appends_create_item:
  assumes "encoder_AddRaw env ctx event = Inr doc" and "\<not> activeMu i"
    and "active i = Some b
         \<or> active i = None \<and> chan_buf (available i) = b # rest \<and> (ctx = None \<or> \<not> pick)"
    and "Add_error env
           \<lparr> item_Index = DataStream_Type (event_DataStream event) @ ''-''
                          @ DataStream_Dataset (event_DataStream event) @ ''-''
                          @ DataStream_Namespace (event_DataStream event),
             item_Action = ''create'', item_Body = doc \<rparr> = None"
  shows "processEvent env ctx pick event i =
     (let item = \<lparr> item_Index = DataStream_Type (event_DataStream event) @ ''-''
                                @ DataStream_Dataset (event_DataStream event) @ ''-''
                                @ DataStream_Namespace (event_DataStream event),
                   item_Action = ''create'', item_Body = doc \<rparr>;
          b' = b\<lparr> bulk_items := bulk_items b @ [item],
                  bulk_len := bulk_len b + item_bytes env item \<rparr>;
          i1 = (if active i = None
                then i\<lparr> available := (available i)\<lparr> chan_buf := rest \<rparr>, timer := Some Armed \<rparr>
                else i);
          i2 = i1\<lparr> eventsAdded := eventsAdded i + 1, eventsActive := eventsActive i + 1 \<rparr>
      in if bulk_Len b' \<ge> FlushBytes (config i) \<and> timer i1 = Some Armed
         then Done (None,
                i2\<lparr> timer := Some Stopped, active := None,
                    g := (g i)\<lparr> group_tasks := group_tasks (g i)
                           @ [\<lparr> task_bulk = Some b', task_parent = Background,
                                task_pc = Spawned \<rparr>] \<rparr> \<rparr>)
         else if bulk_Len b' \<ge> FlushBytes (config i) \<and> timer i1 = None then Panic
         else Done (None, i2\<lparr> active := Some b' \<rparr>))"
proof -
  let ?item = "\<lparr> item_Index = DataStream_Type (event_DataStream event) @ ''-''
                                @ DataStream_Dataset (event_DataStream event) @ ''-''
                                @ DataStream_Namespace (event_DataStream event),
                   item_Action = ''create'', item_Body = doc \<rparr>"
  let ?b' = "b\<lparr> bulk_items := bulk_items b @ [?item],
                bulk_len := bulk_len b + item_bytes env ?item \<rparr>"
  let ?i1 = "if active i = None
             then i\<lparr> available := (available i)\<lparr> chan_buf := rest \<rparr>, timer := Some Armed \<rparr>
             else i"
  let ?i2 = "?i1\<lparr> activeMu := True, active := Some ?b', eventsAdded := eventsAdded i + 1 \<rparr>"
  have sel: "processEvent_select ctx pick (i\<lparr> activeMu := True \<rparr>) =
               Done (None, ?i1\<lparr> activeMu := True, active := Some b \<rparr>)"
    using assms(3)
    by (cases ctx) (auto simp: processEvent_select_def take_available_def split: option.splits)
  have app: "processEvent_append env ctx pick
               \<lparr> reader_buf = doc, reader_indexBuilder = item_Index ?item \<rparr> (item_Index ?item)
               (i\<lparr> activeMu := True \<rparr>) = Done (None, ?i2)"
    using assms(4) by (simp add: processEvent_append_def sel bulk_Add_def)
  have same: "i\<lparr> activeMu := False \<rparr> = i" using assms(2) by simp
  show ?thesis
  proof (cases "active i")
    case None
    with assms(2) app show ?thesis
      using assms(1)
      by (simp add: processEvent_def processEvent_encode_index processEvent_finish_eq Let_def)
  next
    case (Some b0)
    with assms(3) have b: "active i = Some b" by simp
    show ?thesis
    proof (cases "timer i")
      case None
      with b assms(1,2) app show ?thesis
        by (simp add: processEvent_def processEvent_encode_index processEvent_finish_eq Let_def)
    next
      case (Some t)
      with b assms(1,2) app same show ?thesis
        by (cases t)
           (simp_all add: processEvent_def processEvent_encode_index processEvent_finish_eq
              Let_def)
    qed
  qed
qed

text \<open>
  The first event on the indexer \<open>New\<close> has just made goes to the buffer taken from the
  pool, which stays in the active slot; an event that fills the active buffer to the
  threshold goes to that buffer, which is handed off.
\<close>

theorem processEvent_appends_create_item_witness:
  "processEvent plain_Env None False (log_line ''a'') fresh_indexer =
     Done (None, fresh_indexer
       \<lparr> eventsAdded := 1, eventsActive := 1,
         available := \<lparr> chan_cap = 1, chan_buf = [] \<rparr>,
         active := Some \<lparr> bulk_id = 0,
                          bulk_items = [\<lparr> item_Index = ''logs-firehose-default'',
                                          item_Action = ''create'', item_Body = ''a'' \<rparr>],
                          bulk_len = 1 \<rparr>,
         timer := Some Armed \<rparr>)
   \<and> processEvent plain_Env None False (log_line ''b'') filling_indexer =
     Done (None, filling_indexer
       \<lparr> eventsAdded := 2, eventsActive := 2, timer := Some Stopped, active := None,
         g := \<lparr> group_tasks =
                  [\<lparr> task_bulk = Some \<lparr> bulk_id = 0,
                        bulk_items = [\<lparr> item_Index = ''logs-firehose-default'',
                                        item_Action = ''create'', item_Body = ''a'' \<rparr>,
                                      \<lparr> item_Index = ''logs-firehose-default'',
                                        item_Action = ''create'', item_Body = ''b'' \<rparr>],
                        bulk_len = 2 \<rparr>,
                      task_parent = Background, task_pc = Spawned \<rparr>],
                group_err = None \<rparr> \<rparr>)"
  using processEvent_appends_create_item
    [of plain_Env None "log_line ''a''" "''a''" fresh_indexer
        "\<lparr> bulk_id = 0, bulk_items = [], bulk_len = 0 \<rparr>" "[]" False]
    processEvent_appends_create_item
    [of plain_Env None "log_line ''b''" "''b''" filling_indexer
        "\<lparr> bulk_id = 0,
           bulk_items = [\<lparr> item_Index = ''logs-firehose-default'',
                           item_Action = ''create'', item_Body = ''a'' \<rparr>],
           bulk_len = 1 \<rparr>" "[]" False]
  by (simp add: fresh_indexer_def filling_indexer_def plain_Env_def log_line_def
      zero_APMEvent_def bulk_Len_def Let_def time_Second_def)

text \<open>
  The other way round: \<open>processEvent\<close> returns nil only when the event has been
  appended.  The buffer the event went to (still in the active slot, or just handed to a
  flush goroutine) then has that item as its last one.
\<close>

lemma processEvent_nil_return_has_item:
  assumes "processEvent env ctx pick event i = Done (None, i')"
  shows "\<exists>b doc. encoder_AddRaw env ctx event = Inr doc
           \<and> (active i' = Some b
              \<or> active i' = None
                \<and> group_tasks (g i') = group_tasks (g i)
                     @ [\<lparr> task_bulk = Some b, task_parent = Background, task_pc = Spawned \<rparr>])
           \<and> bulk_items b \<noteq> []
           \<and> last (bulk_items b) =
               \<lparr> item_Index = DataStream_Type (event_DataStream event) @ ''-''
                              @ DataStream_Dataset (event_DataStream event) @ ''-''
                              @ DataStream_Namespace (event_DataStream event),
                 item_Action = ''create'', item_Body = doc \<rparr>"
proof -
  from assms obtain doc where doc: "encoder_AddRaw env ctx event = Inr doc"
    by (cases "encoder_AddRaw env ctx event")
       (simp_all add: processEvent_def processEvent_encode_index)
  let ?index = "DataStream_Type (event_DataStream event) @ ''-''
                @ DataStream_Dataset (event_DataStream event) @ ''-''
                @ DataStream_Namespace (event_DataStream event)"
  let ?r = "\<lparr> reader_buf = doc, reader_indexBuilder = ?index \<rparr>"
  from assms doc obtain i1 where
    app: "processEvent_append env ctx pick ?r ?index (i\<lparr> activeMu := True \<rparr>) = Done (None, i1)"
    and fin: "processEvent_finish i1 = Done i'"
    by (auto simp: processEvent_def processEvent_encode_index
        split: if_splits outcome.splits option.splits prod.splits)
  from processEvent_append_Done [OF app] obtain b where
    b: "active i1 = Some b" "bulk_items b \<noteq> []"
       "last (bulk_items b) = \<lparr> item_Index = ?index, item_Action = ''create'', item_Body = doc \<rparr>"
       "g i1 = g i"
    by auto
  from processEvent_finish_Done [OF fin b(1)] b doc show ?thesis
    by auto
qed

text \<open>\<open>fresh_indexer\<close> is what \<open>New\<close> returns for \<open>small_Config\<close>.\<close>

lemma New_small_Config: "New small_Config = Done fresh_indexer"
  by (simp add: New_eq small_Config_def fresh_indexer_def newBulkIndexer_def)

text \<open>
  C10.  With a buffer in the active slot, \<open>processEvent\<close> does not reach the select: for
  every state of the caller's context, also a cancelled one, and whatever the select
  would pick, an event that encodes is appended, both counters are incremented, and the
  buffer is handed off when it has reached \<open>FlushBytes\<close> and the timer could be stopped.
\<close>

theorem processEvent_appends_whatever_context:
  assumes "active i = Some b" and "\<not> activeMu i"
    and "encoder_AddRaw env ctx event = Inr doc"
    and "Add_error env
           \<lparr> item_Index = DataStream_Type (event_DataStream event) @ ''-''
                          @ DataStream_Dataset (event_DataStream event) @ ''-''
                          @ DataStream_Namespace (event_DataStream event),
             item_Action = ''create'', item_Body = doc \<rparr> = None"
    and "timer_Stop (timer i) = Done (stopped, t')"
  shows "processEvent env ctx pick event i =
     (let item = \<lparr> item_Index = DataStream_Type (event_DataStream event) @ ''-''
                                @ DataStream_Dataset (event_DataStream event) @ ''-''
                                @ DataStream_Namespace (event_DataStream event),
                   item_Action = ''create'', item_Body = doc \<rparr>;
          b' = b\<lparr> bulk_items := bulk_items b @ [item],
                  bulk_len := bulk_len b + item_bytes env item \<rparr>
      in Done (None,
           if bulk_Len b' \<ge> FlushBytes (config i) \<and> stopped
           then i\<lparr> eventsAdded := eventsAdded i + 1, eventsActive := eventsActive i + 1,
                   timer := t', active := None,
                   g := (g i)\<lparr> group_tasks := group_tasks (g i)
                          @ [\<lparr> task_bulk = Some b', task_parent = Background,
                               task_pc = Spawned \<rparr>] \<rparr> \<rparr>
           else i\<lparr> eventsAdded := eventsAdded i + 1, eventsActive := eventsActive i + 1,
                   active := Some b' \<rparr>))"
proof -
  let ?item = "\<lparr> item_Index = DataStream_Type (event_DataStream event) @ ''-''
                                @ DataStream_Dataset (event_DataStream event) @ ''-''
                                @ DataStream_Namespace (event_DataStream event),
                   item_Action = ''create'', item_Body = doc \<rparr>"
  let ?b' = "b\<lparr> bulk_items := bulk_items b @ [?item],
                bulk_len := bulk_len b + item_bytes env ?item \<rparr>"
  let ?i1 = "i\<lparr> activeMu := True, active := Some ?b', eventsAdded := eventsAdded i + 1 \<rparr>"
  have app: "processEvent_append env ctx pick
               \<lparr> reader_buf = doc, reader_indexBuilder = item_Index ?item \<rparr> (item_Index ?item)
               (i\<lparr> activeMu := True \<rparr>) = Done (None, ?i1)"
    using assms(1,4)
    by (simp add: processEvent_append_def processEvent_select_def bulk_Add_def)
  have fin: "processEvent_finish ?i1 =
     Done (if bulk_Len ?b' \<ge> FlushBytes (config ?i1) \<and> stopped
           then ?i1\<lparr> eventsActive := eventsActive ?i1 + 1, timer := t', active := None,
                     g := (g ?i1)\<lparr> group_tasks := group_tasks (g ?i1)
                            @ [\<lparr> task_bulk = Some ?b', task_parent = Background,
                                 task_pc = Spawned \<rparr>] \<rparr>,
                     activeMu := False \<rparr>
           else ?i1\<lparr> eventsActive := eventsActive ?i1 + 1, activeMu := False \<rparr>)"
    using timer_Stop_Done [OF assms(5)]
    by (cases stopped) (auto simp: processEvent_finish_eq split: option.splits)
  have unlock: "\<And>j. j\<lparr> activeMu := True \<rparr>\<lparr> activeMu := False \<rparr> = j\<lparr> activeMu := False \<rparr>"
    by simp
  have same: "i\<lparr> activeMu := False \<rparr> = i" using assms(2) by simp
  show ?thesis
    using assms(2,3) app fin
    by (simp add: processEvent_def processEvent_encode_index Let_def)
qed

text \<open>The context is cancelled, the event is appended and the threshold flush starts.\<close>

theorem processEvent_cancelled_context_witness:
  "processEvent plain_Env (Some Canceled) True (log_line ''b'') filling_indexer =
     Done (None, filling_indexer
       \<lparr> eventsAdded := 2, eventsActive := 2, timer := Some Stopped, active := None,
         g := \<lparr> group_tasks =
                  [\<lparr> task_bulk = Some \<lparr> bulk_id = 0,
                        bulk_items = [\<lparr> item_Index = ''logs-firehose-default'',
                                        item_Action = ''create'', item_Body = ''a'' \<rparr>,
                                      \<lparr> item_Index = ''logs-firehose-default'',
                                        item_Action = ''create'', item_Body = ''b'' \<rparr>],
                        bulk_len = 2 \<rparr>,
                      task_parent = Background, task_pc = Spawned \<rparr>],
                group_err = None \<rparr> \<rparr>)"
  using processEvent_appends_whatever_context
    [of filling_indexer "\<lparr> bulk_id = 0,
                       bulk_items = [\<lparr> item_Index = ''logs-firehose-default'',
                                       item_Action = ''create'', item_Body = ''a'' \<rparr>],
                       bulk_len = 1 \<rparr>" plain_Env "Some Canceled" "log_line ''b''" "''b''"
        True "Some Stopped" True]
  by (simp add: filling_indexer_def plain_Env_def log_line_def zero_APMEvent_def
      timer_Stop_def bulk_Len_def Let_def)


text \<open>
  With the slot empty the context is consulted: a done context and an empty pool end
  \<open>processEvent\<close> with the context's error, and nothing is appended.
\<close>

lemma processEvent_select_empty_slot_done_context:
  "active i = None \<Longrightarrow> chan_buf (available i) = [] \<Longrightarrow>
   processEvent_select (Some err) pick i = Done (Some err, i)"
  by (simp add: processEvent_select_def)

subsection \<open>ProcessBatch\<close>

text \<open>
  C6.  Once \<open>closing\<close> is set, \<open>ProcessBatch\<close> returns \<open>ErrClosed\<close> for every batch and
  context and leaves the indexer as it was: nothing is appended.  While a \<open>Close\<close> still
  holds \<open>mu\<close>, the call waits in \<open>RLock\<close> first.
\<close>

theorem ProcessBatch_closing:
  "closing i \<Longrightarrow>
   ProcessBatch env ctx picks batch i =
     (if mu_writer i then Blocked else Done (Some ErrClosed, i))"
  by (simp add: ProcessBatch_def mu_RLock_def mu_RUnlock_def)

theorem ProcessBatch_closing_witness:
  "ProcessBatch plain_Env None [] [log_line ''c''] (filling_indexer\<lparr> closing := True \<rparr>) =
     Done (Some ErrClosed, filling_indexer\<lparr> closing := True \<rparr>)"
  using ProcessBatch_closing [of "filling_indexer\<lparr> closing := True \<rparr>" plain_Env None "[]" "[log_line ''c'']"]
  by (simp add: filling_indexer_def)

section \<open>Properties of the goroutines around one indexer\<close>

subsection \<open>What each part of a call leaves alone\<close>

lemma sum_list_map_update:
  fixes f :: "'a \<Rightarrow> int"
  shows "k < length xs \<Longrightarrow> sum_list (map f (xs[k := y])) = sum_list (map f xs) - f (xs ! k) + f y"
proof (induction xs arbitrary: k)
  case Nil
  then show ?case by simp
next
  case (Cons x xs)
  then show ?case by (cases k) simp_all
qed

lemma run_invariant:
  assumes step: "\<And>a s s'. P s \<Longrightarrow> step env a s = Some s' \<Longrightarrow> P s'"
  shows "P s \<Longrightarrow> run env acts s = Some s' \<Longrightarrow> P s'"
proof (induction acts arbitrary: s)
  case Nil
  then show ?case by simp
next
  case (Cons a acts)
  from Cons.prems(2) obtain s1 where s1: "step env a s = Some s1" "run env acts s1 = Some s'"
    by (auto split: option.splits)
  from step [OF Cons.prems(1) s1(1)] have "P s1" .
  then show ?case using s1(2) by (rule Cons.IH)
qed

lemma same_counters_refl [simp]: "same_counters i i"
  by (simp add: same_counters_def)

lemma group_grows_refl [simp]: "group_grows i i"
  by (simp add: group_grows_def)

lemma group_grows_same: "g i' = g i \<Longrightarrow> group_grows i i'"
  by (simp add: group_grows_def)

lemma group_grows_deferred:
  "group_grows i i' \<Longrightarrow>
   sum_list (map deferred_items (group_tasks (g i'))) =
   sum_list (map deferred_items (group_tasks (g i)))"
proof -
  have "list_all (\<lambda>t. task_pc t = Spawned) new \<Longrightarrow> sum_list (map deferred_items new) = 0" for new
    by (induction new) (simp_all add: deferred_items_def)
  then show "group_grows i i' \<Longrightarrow> ?thesis"
    by (auto simp: group_grows_def)
qed

lemma mu_RLock_frame:
  "mu_RLock i = Done i1 \<Longrightarrow> same_counters i i1 \<and> g i1 = g i"
  by (auto simp: mu_RLock_def same_counters_def split: if_splits)

lemma mu_RUnlock_frame: "same_counters i (mu_RUnlock i) \<and> g (mu_RUnlock i) = g i"
  by (simp add: mu_RUnlock_def same_counters_def)

lemma mu_Lock_frame:
  "mu_Lock i = Done i1 \<Longrightarrow> same_counters i i1 \<and> g i1 = g i"
  by (auto simp: mu_Lock_def same_counters_def split: if_splits)

lemma processEvent_select_frame:
  "processEvent_select ctx pick i = Done (res, i1) \<Longrightarrow> same_counters i i1 \<and> g i1 = g i"
  by (auto simp: processEvent_select_def take_available_def same_counters_def
      split: if_splits option.splits list.splits)

lemma processEvent_append_frame:
  assumes "processEvent_append env ctx pick r index i = Done (res, i1)"
  shows "eventsAdded i1 = eventsAdded i + (if res = None then 1 else 0)
         \<and> eventsActive i1 = eventsActive i \<and> eventsFailed i1 = eventsFailed i \<and> g i1 = g i"
  using assms
  by (auto simp: processEvent_append_def same_counters_def
      split: outcome.splits option.splits sum.splits prod.splits
      dest!: processEvent_select_frame)

lemma flushActiveLocked_frame:
  "same_counters i (flushActiveLocked ctx i) \<and> group_grows i (flushActiveLocked ctx i)"
  by (simp add: flushActiveLocked_def same_counters_def group_grows_def Group_Go_def Let_def)

lemma processEvent_finish_frame:
  assumes "processEvent_finish i = Done i1"
  shows "eventsAdded i1 = eventsAdded i \<and> eventsActive i1 = eventsActive i + 1
         \<and> eventsFailed i1 = eventsFailed i \<and> group_grows i i1"
  using assms
  by (auto simp: processEvent_finish_eq group_grows_def split: option.splits if_splits)

lemma flushActive_frame:
  "flushActive i = Done i1 \<Longrightarrow> same_counters i i1 \<and> group_grows i i1"
  using flushActiveLocked_frame [of i Background]
  by (auto simp: flushActive_def split: if_splits)

lemma Close_begin_frame:
  "Close_begin ctx i = Done (first, i1) \<Longrightarrow> same_counters i i1 \<and> group_grows i i1"
  by (auto simp: Close_begin_def Let_def timer_Stop_def flushActiveLocked_def Group_Go_def
      same_counters_def group_grows_def
      split: if_splits option.splits timer_state.splits)

lemma Close_wait_frame:
  "Close_wait first i = Done (err, i1) \<Longrightarrow>
   same_counters i i1 \<and> g i1 = g i \<and> err = group_err (g i)
   \<and> \<not> list_ex task_running (group_tasks (g i))"
  by (auto simp: Close_wait_def Group_Wait_def same_counters_def
      split: outcome.splits if_splits)


subsection \<open>The counters\<close>

lemma callers_added_set_pc:
  "k < length (callers s) \<Longrightarrow>
   callers_added (set_caller_pc k pc s) =
     callers_added s - caller_added (callers s ! k) + (if pc = Added then 1 else 0)"
  by (simp add: callers_added_def set_caller_pc_def sum_list_map_update caller_added_def)

lemma flushes_deferred_set_pc:
  "k < length (group_tasks (g i)) \<Longrightarrow>
   sum_list (map deferred_items (group_tasks (g (set_task_pc k pc i)))) =
     sum_list (map deferred_items (group_tasks (g i)))
       - deferred_items (group_tasks (g i) ! k)
       + (case pc of Deferred n err \<Rightarrow> n | _ \<Rightarrow> 0)"
  by (simp add: set_task_pc_def sum_list_map_update deferred_items_def)

lemma set_task_pc_counters [simp]:
  "eventsAdded (set_task_pc k pc i) = eventsAdded i"
  "eventsActive (set_task_pc k pc i) = eventsActive i"
  "eventsFailed (set_task_pc k pc i) = eventsFailed i"
  by (simp_all add: set_task_pc_def)

lemma set_caller_pc_fields [simp]:
  "indexer (set_caller_pc k pc s) = indexer s"
  "succeeded (set_caller_pc k pc s) = succeeded s"
  "unmatched_responses (set_caller_pc k pc s) = unmatched_responses s"
  "flush_returns (set_caller_pc k pc s) = flush_returns s"
  by (simp_all add: set_caller_pc_def)

lemma set_closer_pc_fields [simp]:
  "indexer (set_closer_pc k pc s) = indexer s"
  "succeeded (set_closer_pc k pc s) = succeeded s"
  "unmatched_responses (set_closer_pc k pc s) = unmatched_responses s"
  "callers (set_closer_pc k pc s) = callers s"
  "flush_returns (set_closer_pc k pc s) = flush_returns s"
  by (simp_all add: set_closer_pc_def)

lemma step_Stats:
  "step env Call_Stats s = Some s' \<Longrightarrow> \<exists>pcs. s' = s\<lparr> stats_calls := pcs \<rparr>"
  "step env (Stats_Load k) s = Some s' \<Longrightarrow> \<exists>pcs. s' = s\<lparr> stats_calls := pcs \<rparr>"
  by (auto split: if_splits option.splits)

lemma callers_added_indexer_update [simp]:
  "callers_added (s\<lparr> indexer := i \<rparr>) = callers_added s"
  by (simp add: callers_added_def)

lemma items_loop_nonneg: "0 \<le> items_loop resp 0"
  by (simp add: items_loop_count)

lemma flush_result_frame:
  "flush_result n result i = (err, i1) \<Longrightarrow>
   eventsAdded i1 = eventsAdded i \<and> eventsActive i1 = eventsActive i \<and> g i1 = g i
   \<and> eventsFailed i1 = eventsFailed i
        + (case result of Inl e \<Rightarrow> n | Inr resp \<Rightarrow> items_loop resp 0)"
  using items_loop_nonneg
  by (auto simp: flush_result_def Let_def split: sum.splits if_splits)
     (metis order_antisym_conv not_le)+

lemma counters_balanced_alt:
  "counters_balanced s =
     (eventsAdded (indexer s) + sum_list (map deferred_items (group_tasks (g (indexer s)))) =
        eventsActive (indexer s) + succeeded s + eventsFailed (indexer s)
          + sum_list (map caller_added (callers s)))"
  by (simp add: counters_balanced_def flushes_deferred_def callers_added_def)

lemma entries_failed_and_succeeded:
  "items_loop resp 0 + entries_succeeded (Inr resp) = int (length (concat resp))"
proof -
  have "(\<lambda>(action, info). info_Status info > 201 \<or> info_Error_Type info \<noteq> []) = entry_failed"
    by (auto simp: entry_failed_def fun_eq_iff)
  then show ?thesis
    using sum_length_filter_compl [of entry_failed "concat resp"]
    by (simp add: items_loop_count entries_succeeded_def)
qed

lemma step_unmatched_responses:
  "step env a s = Some s' \<Longrightarrow> unmatched_responses s \<le> unmatched_responses s'"
  by (cases a)
     (auto simp: set_caller_pc_def set_closer_pc_def Let_def
       split: if_splits outcome.splits list.splits sum.splits prod.splits caller_pc.splits
         option.splits task_pc.splits closer_pc.splits watcher_state.splits)

lemma step_counters_balanced:
  assumes inv: "counters_balanced s" and st: "step env a s = Some s'"
    and matched: "unmatched_responses s' = 0"
  shows "counters_balanced s'"
proof (cases a)
  case (Call_ProcessBatch batch)
  with inv st show ?thesis
    by (auto simp: counters_balanced_alt caller_added_def)
next
  case (Caller_Enter k)
  with inv st show ?thesis
    using mu_RUnlock_frame
    by (auto simp: counters_balanced_def flushes_deferred_def callers_added_set_pc
        caller_added_def same_counters_def
        split: if_splits outcome.splits dest!: mu_RLock_frame)
next
  case (Caller_Lock k)
  with inv st show ?thesis
    using mu_RUnlock_frame [of "indexer s"]
    by (auto simp: counters_balanced_def flushes_deferred_def callers_added_set_pc
        caller_added_def same_counters_def
        split: if_splits list.splits sum.splits prod.splits)
next
  case (Caller_Append k pick)
  with inv st show ?thesis
    using mu_RUnlock_frame
    by (auto simp: counters_balanced_def flushes_deferred_def callers_added_set_pc
        caller_added_def same_counters_def
        split: if_splits caller_pc.splits outcome.splits prod.splits option.splits
        dest!: processEvent_append_frame)
next
  case (Caller_Finish k)
  with st obtain i1 where k: "k < length (callers s)" "caller_pc (callers s ! k) = Added"
    and fin: "processEvent_finish (indexer s) = Done i1"
    and s': "s' = s\<lparr> indexer := i1,
                      callers := (callers s)[k := (callers s ! k)
                        \<lparr> caller_events := tl (caller_events (callers s ! k)),
                          caller_pc := Looping \<rparr>] \<rparr>"
    by (auto split: if_splits outcome.splits)
  from processEvent_finish_frame [OF fin] group_grows_deferred [of "indexer s" i1] inv k
  show ?thesis
    by (simp add: s' counters_balanced_alt sum_list_map_update caller_added_def)
next
  case (Cancel_Caller k err)
  with inv st show ?thesis
    by (auto simp: counters_balanced_alt sum_list_map_update caller_added_def split: if_splits)
next
  case Timer_Fire
  with inv st show ?thesis
    by (auto simp: counters_balanced_alt split: if_splits)
next
  case Timer_FlushActive
  with inv st show ?thesis
    by (auto simp: counters_balanced_alt same_counters_def
        split: if_splits outcome.splits
        dest!: flushActive_frame dest: group_grows_deferred)
next
  case (Worker_Start k)
  with inv st show ?thesis
    by (auto simp: counters_balanced_alt Let_def flushes_deferred_set_pc deferred_items_def
        split: if_splits option.splits)
next
  case (Worker_Respond k result)
  with st obtain n err i1 where k: "k < length (group_tasks (g (indexer s)))"
    and pc: "task_pc (group_tasks (g (indexer s)) ! k) = Requested n"
    and fr: "flush_result n result (indexer s) = (err, i1)"
    and s': "s' = s\<lparr> indexer := set_task_pc k (Deferred n err) i1,
                      succeeded := succeeded s + entries_succeeded result,
                      unmatched_responses := unmatched_responses s
                        + (if answer_matches n result then 0 else 1) \<rparr>"
    by (auto simp: Let_def split: if_splits task_pc.splits prod.splits)
  from matched s' have full: "answer_matches n result"
    by (simp split: if_splits)
  have "(case result of Inl e \<Rightarrow> n | Inr resp \<Rightarrow> items_loop resp 0) + entries_succeeded result = n"
  proof (cases result)
    case (Inl e)
    then show ?thesis by (simp add: entries_succeeded_def)
  next
    case (Inr resp)
    with full entries_failed_and_succeeded [of resp] show ?thesis
      by (simp add: answer_matches_def)
  qed
  with flush_result_frame [OF fr] inv k pc show ?thesis
    by (simp add: s' counters_balanced_alt flushes_deferred_set_pc deferred_items_def)
next
  case (Worker_Deferred k)
  with inv st show ?thesis
    by (auto simp: counters_balanced_alt Let_def flushes_deferred_set_pc deferred_items_def
        flush_deferred_def
        split: if_splits task_pc.splits)
next
  case (Worker_Exit k)
  with inv st show ?thesis
    by (auto simp: counters_balanced_alt Let_def flushes_deferred_set_pc deferred_items_def
        Group_record_def
        split: if_splits task_pc.splits option.splits)
next
  case Call_Close
  with inv st show ?thesis
    by (auto simp: counters_balanced_alt)
next
  case (Closer_Lock d)
  with inv st show ?thesis
    by (auto simp: counters_balanced_alt same_counters_def
        split: if_splits outcome.splits dest!: mu_Lock_frame)
next
  case (Closer_Begin d)
  with inv st show ?thesis
    by (auto simp: counters_balanced_alt same_counters_def
        split: if_splits outcome.splits prod.splits
        dest!: Close_begin_frame dest: group_grows_deferred)
next
  case (Closer_Wait d)
  with inv st show ?thesis
    by (auto simp: counters_balanced_alt same_counters_def
        split: if_splits closer_pc.splits outcome.splits prod.splits
        dest!: Close_wait_frame)
next
  case (Cancel_Closer d err)
  with inv st show ?thesis
    by (auto simp: counters_balanced_alt split: if_splits)
next
  case Watcher_Close
  with inv st show ?thesis
    by (auto simp: counters_balanced_alt split: if_splits watcher_state.splits)
next
  case Call_Stats
  with inv step_Stats(1) [of env s s'] st show ?thesis
    by (auto simp: counters_balanced_alt)
next
  case (Stats_Load k)
  with inv step_Stats(2) [of env k s s'] st show ?thesis
    by (auto simp: counters_balanced_alt)
qed


lemma start_state:
  "start cfg = Some s0 \<Longrightarrow>
   eventsAdded (indexer s0) = 0 \<and> eventsActive (indexer s0) = 0 \<and> eventsFailed (indexer s0) = 0
   \<and> g (indexer s0) = \<lparr> group_tasks = [], group_err = None \<rparr>
   \<and> callers s0 = [] \<and> closers s0 = [] \<and> stats_calls s0 = [] \<and> watcher s0 = NoWatcher
   \<and> succeeded s0 = 0 \<and> unmatched_responses s0 = 0 \<and> flush_returns s0 = []"
  by (auto simp: start_def New_eq)

lemma reachable_invariant:
  assumes "reachable env cfg s"
    and "\<And>s0. start cfg = Some s0 \<Longrightarrow> P s0"
    and "\<And>a s s'. P s \<Longrightarrow> step env a s = Some s' \<Longrightarrow> P s'"
  shows "P s"
proof -
  from assms(1) obtain acts s0 where s0: "start cfg = Some s0" and acts: "run env acts s0 = Some s"
    by (auto simp: reachable_def)
  show ?thesis
  proof (rule run_invariant [where P = P and env = env and s = s0 and acts = acts])
    show "P s0" using s0 by (rule assms(2))
    show "run env acts s0 = Some s" by (rule acts)
  next
    fix a s s'
    assume "P s" "step env a s = Some s'"
    then show "P s'" by (rule assms(3))
  qed
qed

lemma reachable_run_start:
  "run_start env cfg acts = Some s \<Longrightarrow> reachable env cfg s"
  by (auto simp: run_start_def reachable_def split: option.splits)

lemma quiescent_sums:
  "quiescent s \<Longrightarrow> flushes_deferred s = 0 \<and> callers_added s = 0"
proof -
  have a: "list_all (\<lambda>c. caller_pc c \<noteq> Added) cs \<Longrightarrow> sum_list (map caller_added cs) = 0" for cs
    by (induction cs) (simp_all add: caller_added_def)
  have b: "list_all (\<lambda>t. case task_pc t of Deferred n err \<Rightarrow> False | _ \<Rightarrow> True) ts
           \<Longrightarrow> sum_list (map deferred_items ts) = 0" for ts
    by (induction ts) (auto simp: deferred_items_def split: task_pc.splits)
  show "quiescent s \<Longrightarrow> ?thesis"
    by (simp add: quiescent_def flushes_deferred_def callers_added_def a b)
qed

text \<open>
  C2, as the code has it.  The counters are separate atomic operations: \<open>processEvent\<close>
  increments \<open>eventsAdded\<close> and then \<open>eventsActive\<close>, and \<open>flush\<close> updates \<open>eventsFailed\<close> and
  subtracts from \<open>eventsActive\<close> only in its deferred call; and \<open>flush\<close> counts the failures
  among the entries of the response while it subtracts the number of items it sent.  In
  every state of every run in which each response to a successful bulk request had one
  entry for each item sent, the counters in memory satisfy the equation once the
  goroutines that stand between two such updates are accounted for: \<open>added\<close> plus the
  items of the flushes that have updated \<open>failed\<close> but not yet \<open>active\<close> equals \<open>active\<close>
  plus the response entries that are not failures plus \<open>failed\<close> plus the number of
  callers between the two increments.  With no goroutine at such a point it is the
  equation of the claim.
\<close>

theorem counters_balanced_in_every_run:
  assumes "reachable env cfg s" and "unmatched_responses s = 0"
  shows "eventsAdded (indexer s) + flushes_deferred s =
           eventsActive (indexer s) + succeeded s + eventsFailed (indexer s) + callers_added s
         \<and> (quiescent s \<longrightarrow>
              eventsAdded (indexer s) =
                eventsActive (indexer s) + succeeded s + eventsFailed (indexer s))"
proof -
  have "unmatched_responses s = 0 \<longrightarrow> counters_balanced s"
  proof (rule reachable_invariant [OF assms(1)])
    fix s0 assume "start cfg = Some s0"
    from start_state [OF this] show "unmatched_responses s0 = 0 \<longrightarrow> counters_balanced s0"
      by (simp add: counters_balanced_alt)
  next
    fix a s s'
    assume inv: "unmatched_responses s = 0 \<longrightarrow> counters_balanced s"
      and st: "step env a s = Some s'"
    show "unmatched_responses s' = 0 \<longrightarrow> counters_balanced s'"
    proof
      assume matched: "unmatched_responses s' = 0"
      with step_unmatched_responses [OF st] inv have "counters_balanced s" by simp
      then show "counters_balanced s'" using st matched by (rule step_counters_balanced)
    qed
  qed
  with assms(2) have "counters_balanced s" by simp
  then show ?thesis
    using quiescent_sums [of s] by (auto simp: counters_balanced_def)
qed

subsection \<open>Runs, evaluated\<close>

lemmas run_eval =
  one_event_appended_def failed_flush_then_close_def cancel_during_wait_def
  run_start_def start_def New_eq small_Config_def plain_Env_def log_line_def
  zero_APMEvent_def set_caller_pc_def set_closer_pc_def set_task_pc_def Group_record_def
  context_error_def mu_RLock_def mu_RUnlock_def mu_Lock_def processEvent_encode_index
  processEvent_append_def processEvent_select_def take_available_def processEvent_finish_def
  bulk_Add_def bulk_Len_def bulk_Items_def bulk_Reset_def timer_Stop_def flushActiveLocked_def
  flushActive_def Group_Go_def Group_Wait_def task_running_def Close_begin_def Close_wait_def
  flush_result_def flush_deferred_def chan_send_def newBulkIndexer_def Let_def
  two_events_flushed_def two_failures_for_one_item_def stats_around_append_def
  conflict_entry_def entries_succeeded_def entry_failed_def answer_matches_def

lemma between_increments_run:
  "run_start plain_Env small_Config
     one_event_appended =
   Some \<lparr> indexer =
     \<lparr>eventsAdded = 1, eventsActive = 0, eventsFailed = 0,
        config =
          \<lparr>MaxRequests = 1, FlushBytes = 100, FlushInterval = 30000000000\<rparr>,
        available = \<lparr>chan_cap = 1, chan_buf = []\<rparr>,
        g = \<lparr>group_tasks = [], group_err = None\<rparr>, mu_readers = 1,
        mu_writer = False, closing = False, closed = False, activeMu = True,
        active =
          Some
           \<lparr>bulk_id = 0,
              bulk_items =
                [\<lparr>item_Index = ''logs-firehose-default'',
                    item_Action = ''create'', item_Body = ''a''\<rparr>],
              bulk_len = 1\<rparr>,
        timer = Some Armed, store_requests = []\<rparr>,
     callers =
       [\<lparr>caller_ctx = None,
           caller_events = [log_line ''a''],
           caller_pc = Added\<rparr>],
     closers = [], stats_calls = [], timer_goroutines = 0, watcher = NoWatcher,
     succeeded = 0, unmatched_responses = 0, flush_returns = []\<rparr>"
  by (simp add: run_eval time_Second_def)

subsection \<open>The group's error and Close\<close>

lemma first_error_snoc:
  "first_error (rs @ [e]) = (case first_error rs of None \<Rightarrow> e | Some x \<Rightarrow> Some x)"
proof (induction rs rule: first_error.induct)
  case 1
  show ?case by (cases e) simp_all
qed simp_all

lemma group_err_set_task_pc [simp]:
  "group_err (g (set_task_pc k pc i)) = group_err (g i)"
  by (simp add: set_task_pc_def)

lemma step_group_err:
  assumes inv: "group_err (g (indexer s)) = first_error (flush_returns s)"
    and st: "step env a s = Some s'"
  shows "group_err (g (indexer s')) = first_error (flush_returns s')"
proof (cases a)
  case (Caller_Enter k)
  with inv st show ?thesis
    using mu_RUnlock_frame
    by (auto split: if_splits outcome.splits dest!: mu_RLock_frame)
next
  case (Caller_Lock k)
  with inv st show ?thesis
    using mu_RUnlock_frame [of "indexer s"]
    by (auto split: if_splits list.splits sum.splits prod.splits)
next
  case (Caller_Append k pick)
  with inv st show ?thesis
    using mu_RUnlock_frame
    by (auto split: if_splits caller_pc.splits outcome.splits prod.splits option.splits
        dest!: processEvent_append_frame)
next
  case (Caller_Finish k)
  with inv st show ?thesis
    by (auto simp: group_grows_def split: if_splits outcome.splits
        dest!: processEvent_finish_frame)
next
  case Timer_FlushActive
  with inv st show ?thesis
    by (auto simp: group_grows_def split: if_splits outcome.splits dest!: flushActive_frame)
next
  case (Worker_Start k)
  with inv st show ?thesis
    by (auto simp: Let_def split: if_splits option.splits)
next
  case (Worker_Respond k result)
  with inv st show ?thesis
    by (auto simp: Let_def split: if_splits task_pc.splits prod.splits
        dest!: flush_result_frame)
next
  case (Worker_Deferred k)
  with inv st show ?thesis
    by (auto simp: Let_def flush_deferred_def split: if_splits task_pc.splits)
next
  case (Worker_Exit k)
  with inv st show ?thesis
    by (auto simp: Let_def Group_record_def first_error_snoc
        split: if_splits task_pc.splits option.splits)
next
  case (Closer_Lock d)
  with inv st show ?thesis
    by (auto split: if_splits outcome.splits dest!: mu_Lock_frame)
next
  case (Closer_Begin d)
  with inv st show ?thesis
    by (auto simp: group_grows_def split: if_splits outcome.splits prod.splits
        dest!: Close_begin_frame)
next
  case (Closer_Wait d)
  with inv st show ?thesis
    by (auto split: if_splits closer_pc.splits outcome.splits prod.splits
        dest!: Close_wait_frame)
next
  case (Stats_Load k)
  with inv step_Stats(2) [of env k s s'] st show ?thesis
    by auto
qed (use inv st in \<open>auto split: if_splits watcher_state.splits\<close>)

lemma step_closers_length:
  "step env a s = Some s' \<Longrightarrow> length (closers s) \<le> length (closers s')"
  by (cases a)
     (auto simp: set_caller_pc_def set_closer_pc_def Let_def
       split: if_splits outcome.splits list.splits sum.splits prod.splits caller_pc.splits
         option.splits task_pc.splits closer_pc.splits watcher_state.splits)

lemma step_watcher_index:
  assumes inv: "\<forall>d. watcher s = Watching d \<longrightarrow> d < length (closers s)"
    and st: "step env a s = Some s'"
  shows "\<forall>d. watcher s' = Watching d \<longrightarrow> d < length (closers s')"
  using inv st
  by (cases a)
     (auto simp: set_caller_pc_def set_closer_pc_def Let_def
       split: if_splits outcome.splits list.splits sum.splits prod.splits caller_pc.splits
         option.splits task_pc.splits closer_pc.splits watcher_state.splits)

text \<open>
  C3, as the code has it.  \<open>Close\<close> returns from \<open>i.g.Wait()\<close> only when no flush
  goroutine is running, and what it returns is the first error a flush goroutine has
  returned since the indexer was made (nil when there is none), whatever the state of
  its own context.  When that context is done while the first \<open>Close\<close> waits, the
  goroutine it started closes \<open>i.closed\<close>, and with it the context of every flush is
  done.
\<close>

theorem Close_returns_first_flush_error:
  assumes "reachable env cfg s"
  shows "(\<forall>s'. step env (Closer_Wait d) s = Some s' \<longrightarrow>
            \<not> list_ex task_running (group_tasks (g (indexer s)))
            \<and> closer_pc (closers s' ! d) = CloseReturned (first_error (flush_returns s))
            \<and> closer_ctx (closers s' ! d) = closer_ctx (closers s ! d))
         \<and> (watcher s = Watching d \<and> closer_ctx (closers s ! d) \<noteq> None \<longrightarrow>
              (\<exists>s'. step env Watcher_Close s = Some s' \<and> closed (indexer s')
                    \<and> list_all (flush_ctx_done s') (group_tasks (g (indexer s')))))"
proof -
  have err: "group_err (g (indexer s)) = first_error (flush_returns s)"
  proof (rule reachable_invariant [OF assms])
    fix s0 assume "start cfg = Some s0"
    from start_state [OF this]
    show "group_err (g (indexer s0)) = first_error (flush_returns s0)" by simp
  next
    fix a s s'
    assume "group_err (g (indexer s)) = first_error (flush_returns s)" "step env a s = Some s'"
    then show "group_err (g (indexer s')) = first_error (flush_returns s')"
      by (rule step_group_err)
  qed
  have idx: "\<forall>d. watcher s = Watching d \<longrightarrow> d < length (closers s)"
  proof (rule reachable_invariant [OF assms])
    fix s0 assume "start cfg = Some s0"
    from start_state [OF this]
    show "\<forall>d. watcher s0 = Watching d \<longrightarrow> d < length (closers s0)" by simp
  next
    fix a s s'
    assume "\<forall>d. watcher s = Watching d \<longrightarrow> d < length (closers s)" "step env a s = Some s'"
    then show "\<forall>d. watcher s' = Watching d \<longrightarrow> d < length (closers s')"
      by (rule step_watcher_index)
  qed
  have wait: "\<not> list_ex task_running (group_tasks (g (indexer s)))
            \<and> closer_pc (closers s' ! d) = CloseReturned (first_error (flush_returns s))
            \<and> closer_ctx (closers s' ! d) = closer_ctx (closers s ! d)"
    if "step env (Closer_Wait d) s = Some s'" for s'
    using that err
    by (auto simp: set_closer_pc_def
        split: if_splits closer_pc.splits outcome.splits prod.splits
        dest!: Close_wait_frame)
  have watch: "\<exists>s'. step env Watcher_Close s = Some s' \<and> closed (indexer s')
                    \<and> list_all (flush_ctx_done s') (group_tasks (g (indexer s')))"
    if "watcher s = Watching d" "closer_ctx (closers s ! d) \<noteq> None"
    using that idx by (auto simp: flush_ctx_done_def list_all_iff)
  from wait watch show ?thesis by blast
qed

lemma run_snoc:
  "run env (acts @ [a]) s0 = Some s' \<Longrightarrow>
   \<exists>s. run env acts s0 = Some s \<and> step env a s = Some s'"
  by (induction acts arbitrary: s0) (auto split: option.splits)

lemma run_start_snoc:
  "run_start env cfg (acts @ [a]) = Some s' \<Longrightarrow>
   \<exists>s. run_start env cfg acts = Some s \<and> step env a s = Some s'"
  by (auto simp: run_start_def split: option.splits dest: run_snoc)

text \<open>
  C2 as stated fails.  After the run \<open>one_event_appended\<close> the caller stands between the
  two increments: in memory \<open>eventsAdded\<close> is 1, \<open>eventsActive\<close> and \<open>eventsFailed\<close> are 0, and
  no request has gone to the store.  And what \<open>Stats\<close> returns is of no single state:
  in the run \<open>stats_around_append\<close> the call loads \<open>eventsAdded\<close> before the event is
  appended and \<open>eventsActive\<close> after the second increment, and returns one active event
  with none added.
\<close>

theorem counter_equation_fails_between_increments:
  "map_option (\<lambda>s. (eventsAdded (indexer s), eventsActive (indexer s), succeeded s,
                     eventsFailed (indexer s), store_requests (indexer s)))
     (run_start plain_Env small_Config one_event_appended) = Some (1, 0, 0, 0, [])
   \<and> \<not> (\<forall>s. reachable plain_Env small_Config s \<longrightarrow>
           eventsAdded (indexer s) =
             eventsActive (indexer s) + succeeded s + eventsFailed (indexer s))
   \<and> map_option stats_calls (run_start plain_Env small_Config stats_around_append) =
       Some [StatsReturned \<lparr> stats_Active = 1, stats_Added = 0, stats_Failed = 0 \<rparr>]"
proof -
  have stats: "map_option stats_calls (run_start plain_Env small_Config stats_around_append) =
       Some [StatsReturned \<lparr> stats_Active = 1, stats_Added = 0, stats_Failed = 0 \<rparr>]"
    by (simp add: run_eval time_Second_def)
  let ?acts = "one_event_appended"
  from between_increments_run obtain s where s: "run_start plain_Env small_Config ?acts = Some s"
    and vals: "eventsAdded (indexer s) = 1" "eventsActive (indexer s) = 0"
      "eventsFailed (indexer s) = 0" "succeeded s = 0" "store_requests (indexer s) = []"
    by simp
  from s have "reachable plain_Env small_Config s" by (rule reachable_run_start)
  with vals have "\<not> (\<forall>s. reachable plain_Env small_Config s \<longrightarrow>
           eventsAdded (indexer s) =
             eventsActive (indexer s) + succeeded s + eventsFailed (indexer s))"
    by force
  with s vals stats show ?thesis by simp
qed

text \<open>
  A state with no goroutine between two updates: two events added and flushed, the
  store having answered 201 for one and 409 for the other.
\<close>

lemma flushed_run:
  "map_option (\<lambda>s. (quiescent s, unmatched_responses s, eventsAdded (indexer s),
                     eventsActive (indexer s), succeeded s, eventsFailed (indexer s)))
     (run_start plain_Env small_Config two_events_flushed) = Some (True, 0, 2, 0, 1, 1)"
  by (simp add: run_eval time_Second_def quiescent_def)

theorem counters_balanced_witness:
  "\<exists>s. run_start plain_Env small_Config two_events_flushed = Some s
     \<and> quiescent s \<and> unmatched_responses s = 0
     \<and> eventsAdded (indexer s) = eventsActive (indexer s) + succeeded s + eventsFailed (indexer s)
     \<and> eventsAdded (indexer s) = 2 \<and> eventsActive (indexer s) = 0
     \<and> succeeded s = 1 \<and> eventsFailed (indexer s) = 1"
proof -
  from flushed_run obtain s where s: "run_start plain_Env small_Config two_events_flushed = Some s"
    and q: "quiescent s" and m: "unmatched_responses s = 0"
    and v: "eventsAdded (indexer s) = 2" "eventsActive (indexer s) = 0"
      "succeeded s = 1" "eventsFailed (indexer s) = 1"
    by auto
  from counters_balanced_in_every_run [OF reachable_run_start [OF s] m] q
  have "eventsAdded (indexer s) = eventsActive (indexer s) + succeeded s + eventsFailed (indexer s)"
    by simp
  with s q m v show ?thesis by blast
qed

text \<open>
  C3 as stated fails.  A first bulk request fails with \<open>connection refused\<close>.  Later
  \<open>Close\<close> hands the second buffer off and waits; its context is cancelled during the
  wait, and the flush in flight returns the context's error.  \<open>Close\<close> returns
  \<open>connection refused\<close>, the first error of the group, and not the context's error.
\<close>

lemma cancelled_close_run:
  "map_option closers (run_start plain_Env small_Config
     failed_flush_then_close) =
   Some [\<lparr> closer_ctx = None, closer_pc = CloseWaiting True \<rparr>]"
  "map_option closers (run_start plain_Env small_Config
    ((failed_flush_then_close @ cancel_during_wait) @ [Closer_Wait 0])) =
   Some [\<lparr> closer_ctx = Some Canceled,
           closer_pc = CloseReturned (Some (ErrorString ''connection refused'')) \<rparr>]"
  "map_option flush_returns (run_start plain_Env small_Config
    ((failed_flush_then_close @ cancel_during_wait) @ [Closer_Wait 0])) =
   Some [Some (ErrorString ''connection refused''), Some Canceled]"
  by (simp_all add: run_eval time_Second_def)

theorem Close_cancelled_returns_earlier_error_counterexample:
  "map_option closers (run_start plain_Env small_Config
     failed_flush_then_close) =
   Some [\<lparr> closer_ctx = None, closer_pc = CloseWaiting True \<rparr>]
   \<and> map_option closers (run_start plain_Env small_Config
    ((failed_flush_then_close @ cancel_during_wait) @ [Closer_Wait 0])) =
   Some [\<lparr> closer_ctx = Some Canceled,
           closer_pc = CloseReturned (Some (ErrorString ''connection refused'')) \<rparr>]
   \<and> map_option flush_returns (run_start plain_Env small_Config
    ((failed_flush_then_close @ cancel_during_wait) @ [Closer_Wait 0])) =
   Some [Some (ErrorString ''connection refused''), Some Canceled]"
  using cancelled_close_run by (intro conjI)

text \<open>The same run, at the moment \<open>Close\<close> returns.\<close>

theorem Close_returns_first_flush_error_witness:
  "\<exists>s s'. run_start plain_Env small_Config
     (failed_flush_then_close @ cancel_during_wait) = Some s
     \<and> step plain_Env (Closer_Wait 0) s = Some s'
     \<and> \<not> list_ex task_running (group_tasks (g (indexer s)))
     \<and> closer_pc (closers s' ! 0) = CloseReturned (first_error (flush_returns s))
     \<and> closers s' = [\<lparr> closer_ctx = Some Canceled,
                         closer_pc = CloseReturned (Some (ErrorString ''connection refused'')) \<rparr>]"
proof -
  let ?acts = "(failed_flush_then_close @ cancel_during_wait)"
  from cancelled_close_run(2) obtain s' where
    s': "run_start plain_Env small_Config (?acts @ [Closer_Wait 0]) = Some s'"
    and c: "closers s' = [\<lparr> closer_ctx = Some Canceled,
                         closer_pc = CloseReturned (Some (ErrorString ''connection refused'')) \<rparr>]"
    by auto
  from run_start_snoc [OF s'] obtain s where
    s: "run_start plain_Env small_Config ?acts = Some s"
    and st: "step plain_Env (Closer_Wait 0) s = Some s'"
    by blast
  from Close_returns_first_flush_error [OF reachable_run_start [OF s], where d = 0] st
  have "\<not> list_ex task_running (group_tasks (g (indexer s)))
        \<and> closer_pc (closers s' ! 0) = CloseReturned (first_error (flush_returns s))"
    by blast
  with s st c show ?thesis by blast
qed

text \<open>
  The same on the flush side: after the failed request of \<open>failed_flush_then_close\<close> has been
  counted in \<open>eventsFailed\<close> and before the deferred call has run, the item is counted as
  active and as failed at once.
\<close>

lemma counter_equation_fails_before_deferred:
  "map_option (\<lambda>s. (eventsAdded (indexer s), eventsActive (indexer s), succeeded s,
                     eventsFailed (indexer s)))
     (run_start plain_Env small_Config
       (one_event_appended
        @ [Caller_Finish 0, Caller_Lock 0, Timer_Fire, Timer_FlushActive, Worker_Start 0,
           Worker_Respond 0 (Inl (ErrorString ''connection refused''))])) =
     Some (1, 1, 0, 1)"
  by (simp add: run_eval time_Second_def)

text \<open>
  Why the responses must match the requests: \<open>flush\<close> adds to \<open>eventsFailed\<close> the failures
  it finds in the response and subtracts from \<open>eventsActive\<close> the number of items it sent.
  When the store answers a request of one item with two failed entries, one event has
  been added and two have failed, with no goroutine between two updates.
\<close>

lemma counter_equation_fails_on_unmatched_response:
  "map_option (\<lambda>s. (quiescent s, unmatched_responses s, eventsAdded (indexer s),
                     eventsActive (indexer s), succeeded s, eventsFailed (indexer s)))
     (run_start plain_Env small_Config two_failures_for_one_item) = Some (True, 1, 1, 0, 0, 2)"
  by (simp add: run_eval time_Second_def quiescent_def)

subsection \<open>Stats\<close>

text \<open>
  The value \<open>Stats\<close> returns is put together from three loads: it is \<open>eventsAdded\<close> of
  the state at the first load, \<open>eventsActive\<close> of the state at the second and
  \<open>eventsFailed\<close> of the state at the third, whatever the other goroutines do in between.
\<close>

lemma step_other_stats_call:
  assumes "step env a s = Some s'" and "a \<noteq> Stats_Load k" and "k < length (stats_calls s)"
  shows "k < length (stats_calls s') \<and> stats_calls s' ! k = stats_calls s ! k"
  using assms
  by (cases a)
     (auto simp: set_caller_pc_def set_closer_pc_def Let_def nth_append nth_list_update
       split: if_splits outcome.splits list.splits sum.splits prod.splits caller_pc.splits
         option.splits task_pc.splits closer_pc.splits watcher_state.splits)

lemma run_other_stats_call:
  "run env acts s = Some s' \<Longrightarrow> Stats_Load k \<notin> set acts \<Longrightarrow> k < length (stats_calls s) \<Longrightarrow>
   k < length (stats_calls s') \<and> stats_calls s' ! k = stats_calls s ! k"
proof (induction acts arbitrary: s)
  case Nil
  then show ?case by simp
next
  case (Cons a acts)
  from Cons.prems(1) obtain s1 where s1: "step env a s = Some s1" "run env acts s1 = Some s'"
    by (auto split: option.splits)
  from Cons.prems(2) have a: "a \<noteq> Stats_Load k" and rest: "Stats_Load k \<notin> set acts" by auto
  from step_other_stats_call [OF s1(1) a Cons.prems(3)]
  have k1: "k < length (stats_calls s1)" and same: "stats_calls s1 ! k = stats_calls s ! k"
    by simp_all
  from Cons.IH [OF s1(2) rest k1] same show ?case by simp
qed

lemma Stats_load_step:
  assumes "step env (Stats_Load k) s = Some s'"
  shows "k < length (stats_calls s') \<and> Stats_load (indexer s) (stats_calls s ! k) = Some (stats_calls s' ! k)
         \<and> indexer s' = indexer s"
  using assms by (auto split: if_splits option.splits)

lemma Stats_returns_three_loads:
  assumes "k < length (stats_calls s1)" and "stats_calls s1 ! k = StatsCalled"
    and "run env ([Stats_Load k] @ acts1 @ [Stats_Load k] @ acts2 @ [Stats_Load k]) s1 = Some s'"
    and "Stats_Load k \<notin> set acts1" and "Stats_Load k \<notin> set acts2"
  shows "\<exists>s2 s3. run env ([Stats_Load k] @ acts1) s1 = Some s2
           \<and> run env ([Stats_Load k] @ acts2) s2 = Some s3
           \<and> stats_calls s' ! k =
               StatsReturned (Indexer_Stats (indexer s1) (indexer s2) (indexer s3))"
proof -
  have split: "run env (xs @ ys) s = Some t \<Longrightarrow> \<exists>m. run env xs s = Some m \<and> run env ys m = Some t"
    for xs ys s t
    by (induction xs arbitrary: s) (auto split: option.splits)
  from assms(3) obtain a1 where a1: "step env (Stats_Load k) s1 = Some a1"
    and r1: "run env (acts1 @ [Stats_Load k] @ acts2 @ [Stats_Load k]) a1 = Some s'"
    by (auto split: option.splits)
  from split [OF r1] obtain s2 where s2: "run env acts1 a1 = Some s2"
    and r2: "run env ([Stats_Load k] @ acts2 @ [Stats_Load k]) s2 = Some s'"
    by blast
  from r2 obtain a2 where a2: "step env (Stats_Load k) s2 = Some a2"
    and r3: "run env (acts2 @ [Stats_Load k]) a2 = Some s'"
    by (auto split: option.splits)
  have single: "run env [a] s = step env a s" for a s
    by (simp split: option.splits)
  from split [OF r3] obtain s3 where s3: "run env acts2 a2 = Some s3"
    and a3: "step env (Stats_Load k) s3 = Some s'"
    unfolding single by blast
  from Stats_load_step [OF a1] assms(2)
  have p1: "k < length (stats_calls a1)" "stats_calls a1 ! k = LoadedAdded (eventsAdded (indexer s1))"
    by auto
  from run_other_stats_call [OF s2 assms(4) p1(1)] p1(2)
  have p2: "k < length (stats_calls s2)" "stats_calls s2 ! k = LoadedAdded (eventsAdded (indexer s1))"
    by simp_all
  from Stats_load_step [OF a2] p2
  have p3: "k < length (stats_calls a2)"
    "stats_calls a2 ! k = LoadedActive (eventsAdded (indexer s1)) (eventsActive (indexer s2))"
    by auto
  from run_other_stats_call [OF s3 assms(5) p3(1)] p3(2)
  have p4: "k < length (stats_calls s3)"
    "stats_calls s3 ! k = LoadedActive (eventsAdded (indexer s1)) (eventsActive (indexer s2))"
    by simp_all
  from Stats_load_step [OF a3] p4
  have "stats_calls s' ! k =
          StatsReturned (Indexer_Stats (indexer s1) (indexer s2) (indexer s3))"
    by (auto simp: Indexer_Stats_def)
  moreover from a1 s2 have "run env ([Stats_Load k] @ acts1) s1 = Some s2" by simp
  moreover from a2 s3 have "run env ([Stats_Load k] @ acts2) s2 = Some s3" by simp
  ultimately show ?thesis by blast
qed

text \<open>With no step of another goroutine between the loads it is the counters of one state.\<close>

lemma Stats_without_interleaving:
  assumes "k < length (stats_calls s)" and "stats_calls s ! k = StatsCalled"
  shows "run env [Stats_Load k, Stats_Load k, Stats_Load k] s =
     Some (s\<lparr> stats_calls := (stats_calls s)
              [k := StatsReturned (Indexer_Stats (indexer s) (indexer s) (indexer s))] \<rparr>)"
  using assms by (simp add: Indexer_Stats_def)

subsection \<open>The steps of one goroutine and the whole call\<close>

text \<open>
  A caller that runs its three steps for one event with no other goroutine in between
  does what \<open>processEvent\<close> says, and a flush goroutine that runs its first three steps
  does what \<open>flush\<close> says.
\<close>

lemma caller_steps_are_processEvent:
  assumes "k < length (callers s)" and "caller_pc (callers s ! k) = Looping"
    and "caller_events (callers s ! k) = event # batch"
    and "processEvent env (caller_ctx (callers s ! k)) pick event (indexer s) = Done (None, i')"
  shows "run env [Caller_Lock k, Caller_Append k pick, Caller_Finish k] s =
     Some (s\<lparr> indexer := i',
              callers := (callers s)[k := (callers s ! k)\<lparr> caller_events := batch,
                                                             caller_pc := Looping \<rparr>] \<rparr>)"
proof -
  from assms(4) obtain r index i1 where
    enc: "processEvent_encode env (caller_ctx (callers s ! k)) event = Inr (r, index)"
    and free: "\<not> activeMu (indexer s)"
    and app: "processEvent_append env (caller_ctx (callers s ! k)) pick r index
                ((indexer s)\<lparr> activeMu := True \<rparr>) = Done (None, i1)"
    and fin: "processEvent_finish i1 = Done i'"
    by (auto simp: processEvent_def 
        split: sum.splits if_splits outcome.splits option.splits prod.splits)
  show ?thesis
    using assms(1-3) enc free app fin
    by (simp add: set_caller_pc_def)
qed

lemma set_task_pc_length:
  "length (group_tasks (g (set_task_pc k pc i))) = length (group_tasks (g i))"
  by (simp add: set_task_pc_def)

lemma set_task_pc_nth:
  "k < length (group_tasks (g i)) \<Longrightarrow>
   task_pc (group_tasks (g (set_task_pc k pc i)) ! k) = pc
   \<and> task_bulk (group_tasks (g (set_task_pc k pc i)) ! k) = task_bulk (group_tasks (g i) ! k)"
  by (simp add: set_task_pc_def)

lemma set_task_pc_twice:
  "set_task_pc k pc' (set_task_pc k pc i) = set_task_pc k pc' i"
  by (cases "k < length (group_tasks (g i))")
     (simp_all add: set_task_pc_def list_update_beyond)

lemma flush_result_set_task_pc:
  "flush_result n result (set_task_pc k pc i) =
     (fst (flush_result n result i), set_task_pc k pc (snd (flush_result n result i)))"
  by (simp add: flush_result_def set_task_pc_def Let_def split: sum.splits)

lemma flush_deferred_set_task_pc:
  "flush_deferred n (set_task_pc k pc i) = set_task_pc k pc (flush_deferred n i)"
  by (simp add: flush_deferred_def set_task_pc_def)

lemma worker_steps_are_flush:
  assumes "k < length (group_tasks (g (indexer s)))"
    and "task_pc (group_tasks (g (indexer s)) ! k) = Spawned"
    and "task_bulk (group_tasks (g (indexer s)) ! k) = Some b" and "bulk_Items b \<noteq> 0"
    and "flush result (Some b) (indexer s) = Done (err, i')"
  shows "map_option indexer
           (run env [Worker_Start k, Worker_Respond k result, Worker_Deferred k] s) =
         Some (set_task_pc k (Exiting err) i')"
proof -
  let ?i0 = "(indexer s)\<lparr> store_requests := store_requests (indexer s) @ [bulk_items b] \<rparr>"
  obtain err1 i1 where fr: "flush_result (bulk_Items b) result ?i0 = (err1, i1)"
    by (cases "flush_result (bulk_Items b) result ?i0")
  with assms(4,5) have i': "i' = flush_deferred (bulk_Items b) i1" and err: "err = err1"
    by (simp_all add: flush_def Let_def)
  have len0: "k < length (group_tasks (g ?i0))" using assms(1) by simp
  have st1: "step env (Worker_Start k) s =
       Some (s\<lparr> indexer := set_task_pc k (Requested (bulk_Items b)) ?i0 \<rparr>)"
    using assms(1-4) by (simp add: Let_def)
  let ?s1 = "s\<lparr> indexer := set_task_pc k (Requested (bulk_Items b)) ?i0 \<rparr>"
  let ?s2 = "?s1\<lparr> indexer := set_task_pc k (Deferred (bulk_Items b) err1) i1,
                  succeeded := succeeded ?s1 + entries_succeeded result,
                  unmatched_responses := unmatched_responses ?s1
                    + (if answer_matches (bulk_Items b) result then 0 else 1) \<rparr>"
  have g1: "g i1 = g ?i0"
    using fr by (auto simp: flush_result_def Let_def split: sum.splits if_splits)
  have st2: "step env (Worker_Respond k result) ?s1 = Some ?s2"
    using len0 fr
    by (simp add: Let_def set_task_pc_length set_task_pc_nth flush_result_set_task_pc
        set_task_pc_twice)
  have len1: "k < length (group_tasks (g i1))" using g1 assms(1) by simp
  have st3: "step env (Worker_Deferred k) ?s2 =
       Some (?s2\<lparr> indexer := set_task_pc k (Exiting err1) (flush_deferred (bulk_Items b) i1) \<rparr>)"
    using len1
    by (simp add: Let_def set_task_pc_length set_task_pc_nth flush_deferred_set_task_pc
        set_task_pc_twice)
  show ?thesis
    by (simp only: run.simps st1 st2 st3 option.case i' err) simp
qed

subsection \<open>The bulk buffers\<close>

lemma mset_concat_map_update:
  "k < length xs \<Longrightarrow>
   mset (concat (map f (xs[k := y]))) + mset (f (xs ! k)) = mset (concat (map f xs)) + mset (f y)"
proof (induction xs arbitrary: k)
  case Nil
  then show ?case by simp
next
  case (Cons x xs)
  then show ?case by (cases k) (simp_all add: ac_simps)
qed

lemma held_mu [simp]:
  "held (i\<lparr> mu_readers := r \<rparr>) = held i"
  "held (i\<lparr> mu_writer := w \<rparr>) = held i"
  "held (i\<lparr> activeMu := m \<rparr>) = held i"
  "held (i\<lparr> closing := c \<rparr>) = held i"
  "held (i\<lparr> closed := c \<rparr>) = held i"
  "held (i\<lparr> timer := t \<rparr>) = held i"
  "held (i\<lparr> eventsAdded := a \<rparr>) = held i"
  "held (i\<lparr> eventsActive := a \<rparr>) = held i"
  "held (i\<lparr> eventsFailed := a \<rparr>) = held i"
  "held (i\<lparr> store_requests := q \<rparr>) = held i"
  by (simp_all add: held_def buffers_held_def)

lemma held_flushActiveLocked [simp]: "held (flushActiveLocked ctx i) = held i"
  by (simp add: held_def buffers_held_def flushActiveLocked_def Group_Go_def Let_def
      task_holds_def task_running_def split: option.splits)

lemma held_select:
  "processEvent_select ctx pick i = Done (res, i1) \<Longrightarrow> held i1 = held i"
  by (auto simp: processEvent_select_def take_available_def held_def buffers_held_def
      split: if_splits option.splits list.splits)

lemma held_append:
  "processEvent_append env ctx pick r index i = Done (res, i1) \<Longrightarrow> held i1 = held i"
  by (auto simp: processEvent_append_def bulk_Add_def
      split: outcome.splits option.splits sum.splits prod.splits
      dest!: held_select)
     (auto simp: held_def buffers_held_def)

lemma held_finish:
  "processEvent_finish i = Done i1 \<Longrightarrow> held i1 = held i"
  by (auto simp: processEvent_finish_def Let_def
      split: option.splits if_splits outcome.splits prod.splits)

lemma held_flushActive: "flushActive i = Done i1 \<Longrightarrow> held i1 = held i"
  by (auto simp: flushActive_def split: if_splits)

lemma held_Close_begin: "Close_begin ctx i = Done (first, i1) \<Longrightarrow> held i1 = held i"
  by (auto simp: Close_begin_def Let_def split: if_splits outcome.splits prod.splits)

lemma held_Close_wait: "Close_wait first i = Done (err, i1) \<Longrightarrow> held i1 = held i"
  by (auto simp: Close_wait_def split: outcome.splits)

lemma held_mu_RLock: "mu_RLock i = Done i1 \<Longrightarrow> held i1 = held i"
  by (auto simp: mu_RLock_def split: if_splits)

lemma held_mu_RUnlock [simp]: "held (mu_RUnlock i) = held i"
  by (simp add: mu_RUnlock_def)

lemma held_mu_Lock: "mu_Lock i = Done i1 \<Longrightarrow> held i1 = held i"
  by (auto simp: mu_Lock_def split: if_splits)

lemma held_flush_result: "flush_result n result i = (err, i1) \<Longrightarrow> held i1 = held i"
  by (auto simp: flush_result_def Let_def split: sum.splits if_splits)

lemma held_flush_deferred [simp]: "held (flush_deferred n i) = held i"
  by (simp add: flush_deferred_def)

lemma held_set_task_pc_running:
  assumes "k < length (group_tasks (g i))"
    and "task_running ((group_tasks (g i) ! k)\<lparr> task_pc := pc \<rparr>) = task_running (group_tasks (g i) ! k)
         \<or> task_bulk (group_tasks (g i) ! k) = None"
  shows "held (set_task_pc k pc i) = held i"
proof -
  let ?t = "group_tasks (g i) ! k"
  have "task_holds (?t\<lparr> task_pc := pc \<rparr>) = task_holds ?t"
    using assms(2) by (auto simp: task_holds_def)
  with mset_concat_map_update [OF assms(1), of task_holds "?t\<lparr> task_pc := pc \<rparr>"]
  show ?thesis
    by (simp add: held_def buffers_held_def set_task_pc_def)
qed


lemma held_Group_record [simp]: "held (i\<lparr> g := Group_record err (g i) \<rparr>) = held i"
  by (simp add: held_def buffers_held_def Group_record_def split: option.splits)

lemma held_worker_exit:
  assumes k: "k < length (group_tasks (g i))"
    and pc: "task_pc (group_tasks (g i) ! k) = Exiting err"
    and b: "task_bulk (group_tasks (g i) ! k) = Some b"
    and send: "chan_send (available i) (bulk_Reset b) = Some ch"
  shows "held (set_task_pc k Finished (i\<lparr> available := ch \<rparr>)) = held i"
proof -
  let ?t = "group_tasks (g i) ! k"
  from send have ch: "ch = (available i)\<lparr> chan_buf := chan_buf (available i) @ [bulk_Reset b] \<rparr>"
    by (auto simp: chan_send_def split: if_splits)
  have before: "task_holds ?t = [bulk_id b]"
    using pc b by (simp add: task_holds_def task_running_def)
  have after: "task_holds (?t\<lparr> task_pc := Finished \<rparr>) = []"
    by (simp add: task_holds_def task_running_def)
  from mset_concat_map_update [OF k, of task_holds "?t\<lparr> task_pc := Finished \<rparr>"] before after
  have "mset (concat (map task_holds ((group_tasks (g i))[k := ?t\<lparr> task_pc := Finished \<rparr>])))
          + {#bulk_id b#} = mset (concat (map task_holds (group_tasks (g i))))"
    by simp
  then show ?thesis
    by (simp add: held_def buffers_held_def set_task_pc_def ch bulk_Reset_def ac_simps)
qed

lemma held_worker_respond:
  assumes "flush_result n result i = (err, i1)" and "k < length (group_tasks (g i))"
    and "task_pc (group_tasks (g i) ! k) = Requested n"
  shows "held (set_task_pc k (Deferred n err) i1) = held i"
proof -
  from flush_result_frame [OF assms(1)] have g1: "g i1 = g i" by simp
  have "held (set_task_pc k (Deferred n err) i1) = held i1"
    using assms(2,3) g1 by (intro held_set_task_pc_running) (simp_all add: task_running_def)
  with held_flush_result [OF assms(1)] show ?thesis by simp
qed

lemma held_worker_start:
  assumes "k < length (group_tasks (g i))" and "task_pc (group_tasks (g i) ! k) = Spawned"
  shows "task_bulk (group_tasks (g i) ! k) = None \<Longrightarrow> held (set_task_pc k Crashed i) = held i"
    and "held (set_task_pc k (Exiting None) i) = held i"
    and "held (set_task_pc k (Requested n) (i\<lparr> store_requests := q \<rparr>)) = held i"
proof -
  show "task_bulk (group_tasks (g i) ! k) = None \<Longrightarrow> held (set_task_pc k Crashed i) = held i"
    using assms by (intro held_set_task_pc_running) simp_all
  show "held (set_task_pc k (Exiting None) i) = held i"
    using assms by (intro held_set_task_pc_running) (simp_all add: task_running_def)
  have "held (set_task_pc k (Requested n) (i\<lparr> store_requests := q \<rparr>)) =
        held (i\<lparr> store_requests := q \<rparr>)"
    using assms by (intro held_set_task_pc_running) (simp_all add: task_running_def)
  then show "held (set_task_pc k (Requested n) (i\<lparr> store_requests := q \<rparr>)) = held i"
    by simp
qed

lemma held_worker_deferred:
  assumes "k < length (group_tasks (g i))"
    and "task_pc (group_tasks (g i) ! k) = Deferred n err"
  shows "held (set_task_pc k (Exiting err) (flush_deferred n i)) = held i"
proof -
  have "held (set_task_pc k (Exiting err) (flush_deferred n i)) = held (flush_deferred n i)"
    using assms
    by (intro held_set_task_pc_running) (simp_all add: task_running_def flush_deferred_def)
  then show ?thesis by simp
qed

lemma step_held:
  assumes st: "step env a s = Some s'"
  shows "held (indexer s') = held (indexer s)"
proof (cases a)
  case (Caller_Enter k)
  with st show ?thesis
    by (auto simp: set_caller_pc_def split: if_splits outcome.splits dest!: held_mu_RLock)
next
  case (Caller_Lock k)
  with st show ?thesis
    by (auto simp: set_caller_pc_def split: if_splits list.splits sum.splits prod.splits)
next
  case (Caller_Append k pick)
  with st show ?thesis
    by (auto simp: set_caller_pc_def
        split: if_splits caller_pc.splits outcome.splits prod.splits option.splits
        dest!: held_append)
next
  case (Caller_Finish k)
  with st show ?thesis
    by (auto split: if_splits outcome.splits dest!: held_finish)
next
  case Timer_FlushActive
  with st show ?thesis
    by (auto split: if_splits outcome.splits dest!: held_flushActive)
next
  case (Worker_Start k)
  with st show ?thesis
    by (auto simp: Let_def held_worker_start split: if_splits option.splits)
next
  case (Worker_Respond k result)
  with st show ?thesis
    by (auto simp: Let_def held_worker_respond split: if_splits task_pc.splits prod.splits)
next
  case (Worker_Deferred k)
  with st show ?thesis
    by (auto simp: Let_def held_worker_deferred split: if_splits task_pc.splits)
next
  case (Worker_Exit k)
  with st show ?thesis
    by (auto simp: Let_def held_worker_exit
        split: if_splits task_pc.splits option.splits)
next
  case (Closer_Lock d)
  with st show ?thesis
    by (auto simp: set_closer_pc_def split: if_splits outcome.splits dest!: held_mu_Lock)
next
  case (Closer_Begin d)
  with st show ?thesis
    by (auto simp: set_closer_pc_def split: if_splits outcome.splits prod.splits
        dest!: held_Close_begin)
next
  case (Closer_Wait d)
  with st show ?thesis
    by (auto simp: set_closer_pc_def
        split: if_splits closer_pc.splits outcome.splits prod.splits
        dest!: held_Close_wait)
next
  case (Stats_Load k)
  with step_Stats(2) [of env k s s'] st show ?thesis
    by auto
qed (use st in \<open>auto split: if_splits watcher_state.splits\<close>)


lemma held_start:
  assumes "start cfg = Some s0"
  shows "held (indexer s0) =
     (mset [0..<nat (if MaxRequests cfg \<le> 0 then 10 else MaxRequests cfg)],
      nat (if MaxRequests cfg \<le> 0 then 10 else MaxRequests cfg))"
proof -
  let ?m = "nat (if MaxRequests cfg \<le> 0 then 10 else MaxRequests cfg)"
  have ids: "map (bulk_id \<circ> newBulkIndexer) ks = ks" for ks
    by (induction ks) (simp_all add: newBulkIndexer_def)
  from assms have "available (indexer s0) =
      \<lparr> chan_cap = ?m, chan_buf = map newBulkIndexer [0..<?m] \<rparr>"
    and "active (indexer s0) = None" and "group_tasks (g (indexer s0)) = []"
    by (auto simp: start_def New_eq)
  then have "buffers_held (indexer s0) = [0..<?m]" and "chan_cap (available (indexer s0)) = ?m"
    by (simp_all add: buffers_held_def ids)
  then show ?thesis by (simp only: held_def)
qed

text \<open>
  In every state of every run the buffers in the pool, in the active slot and with the
  running flush goroutines are the \<open>MaxRequests\<close> buffers made by \<open>New\<close>, each of them
  once: a buffer is never with two holders, so it is never handed off twice, and none is
  lost.
\<close>

lemma buffers_conserved_in_every_run:
  assumes "reachable env cfg s"
  shows "mset (buffers_held (indexer s)) = mset [0..<chan_cap (available (indexer s))]
         \<and> chan_cap (available (indexer s)) =
             nat (if MaxRequests cfg \<le> 0 then 10 else MaxRequests cfg)"
proof -
  have "held (indexer s) =
     (mset [0..<nat (if MaxRequests cfg \<le> 0 then 10 else MaxRequests cfg)],
      nat (if MaxRequests cfg \<le> 0 then 10 else MaxRequests cfg))"
  proof (rule reachable_invariant [OF assms])
    fix s0 assume "start cfg = Some s0"
    then show "held (indexer s0) =
     (mset [0..<nat (if MaxRequests cfg \<le> 0 then 10 else MaxRequests cfg)],
      nat (if MaxRequests cfg \<le> 0 then 10 else MaxRequests cfg))"
      by (rule held_start)
  next
    fix a s s'
    assume "held (indexer s) =
     (mset [0..<nat (if MaxRequests cfg \<le> 0 then 10 else MaxRequests cfg)],
      nat (if MaxRequests cfg \<le> 0 then 10 else MaxRequests cfg))"
      and "step env a s = Some s'"
    then show "held (indexer s') =
     (mset [0..<nat (if MaxRequests cfg \<le> 0 then 10 else MaxRequests cfg)],
      nat (if MaxRequests cfg \<le> 0 then 10 else MaxRequests cfg))"
      using step_held by simp
  qed
  then show ?thesis by (simp add: held_def)
qed

lemma buffers_distinct_in_every_run:
  assumes "reachable env cfg s"
  shows "distinct (buffers_held (indexer s))"
proof -
  from buffers_conserved_in_every_run [OF assms]
  have "mset (buffers_held (indexer s)) = mset [0..<chan_cap (available (indexer s))]" by simp
  then show ?thesis
    using distinct_upt mset_eq_imp_distinct_iff by blast
qed

text \<open>The send that returns a buffer to the pool finds room.\<close>

lemma worker_exit_never_waits:
  assumes "reachable env cfg s" and "k < length (group_tasks (g (indexer s)))"
    and "task_pc (group_tasks (g (indexer s)) ! k) = Exiting err"
    and "task_bulk (group_tasks (g (indexer s)) ! k) = Some b"
  shows "step env (Worker_Exit k) s \<noteq> None"
proof -
  let ?i = "indexer s"
  let ?ts = "group_tasks (g ?i)"
  from buffers_conserved_in_every_run [OF assms(1)]
  have "mset (buffers_held ?i) = mset [0..<chan_cap (available ?i)]" by (rule conjunct1)
  then have "length (buffers_held ?i) = length [0..<chan_cap (available ?i)]"
    by (rule mset_eq_length)
  then have total: "length (buffers_held ?i) = chan_cap (available ?i)" by simp
  have "task_holds (?ts ! k) = [bulk_id b]"
    using assms(3,4) by (simp add: task_holds_def task_running_def)
  moreover have "?ts ! k \<in> set ?ts" using assms(2) by simp
  ultimately have "length (concat (map task_holds ?ts)) \<ge> 1"
    by (metis One_nat_def Suc_leI length_greater_0_conv concat_eq_Nil_conv image_eqI
        list.distinct(1) list.set_map)
  with total have "length (chan_buf (available ?i)) < chan_cap (available ?i)"
    by (simp add: buffers_held_def)
  with assms(2-4) show ?thesis
    by (simp add: Let_def chan_send_def)
qed

subsection \<open>The timer and the active slot\<close>

lemma step_timer_covers_active:
  assumes inv: "timer_covers_active s" and st: "step env a s = Some s'"
  shows "timer_covers_active s'"
proof (cases a)
  case (Caller_Enter k)
  with inv st show ?thesis
    by (auto simp: timer_covers_active_def set_caller_pc_def mu_RLock_def mu_RUnlock_def
        split: if_splits outcome.splits)
next
  case (Caller_Lock k)
  with inv st show ?thesis
    by (auto simp: timer_covers_active_def set_caller_pc_def mu_RUnlock_def
        split: if_splits list.splits sum.splits prod.splits)
next
  case (Caller_Append k pick)
  with inv st show ?thesis
    by (auto simp: timer_covers_active_def set_caller_pc_def mu_RUnlock_def
        processEvent_append_def processEvent_select_def take_available_def bulk_Add_def
        split: if_splits caller_pc.splits outcome.splits prod.splits option.splits
          list.splits sum.splits)
next
  case (Caller_Finish k)
  with inv st show ?thesis
    by (auto simp: timer_covers_active_def processEvent_finish_eq
        split: if_splits outcome.splits option.splits)
next
  case Timer_Fire
  with inv st show ?thesis
    by (auto simp: timer_covers_active_def split: if_splits)
next
  case Timer_FlushActive
  with inv st show ?thesis
    by (auto simp: timer_covers_active_def flushActive_def flushActiveLocked_def Let_def
        split: if_splits outcome.splits)
next
  case (Worker_Start k)
  with inv st show ?thesis
    by (auto simp: timer_covers_active_def Let_def set_task_pc_def
        split: if_splits option.splits)
next
  case (Worker_Respond k result)
  with inv st show ?thesis
    by (auto simp: timer_covers_active_def Let_def set_task_pc_def flush_result_def
        split: if_splits task_pc.splits prod.splits sum.splits)
next
  case (Worker_Deferred k)
  with inv st show ?thesis
    by (auto simp: timer_covers_active_def Let_def set_task_pc_def flush_deferred_def
        split: if_splits task_pc.splits)
next
  case (Worker_Exit k)
  with inv st show ?thesis
    by (auto simp: timer_covers_active_def Let_def set_task_pc_def
        split: if_splits task_pc.splits option.splits)
next
  case (Closer_Lock d)
  with inv st show ?thesis
    by (auto simp: timer_covers_active_def set_closer_pc_def mu_Lock_def
        split: if_splits outcome.splits)
next
  case (Closer_Begin d)
  with inv st show ?thesis
    by (auto simp: timer_covers_active_def set_closer_pc_def Close_begin_def Let_def
        timer_Stop_def flushActiveLocked_def
        split: if_splits outcome.splits prod.splits option.splits timer_state.splits)
next
  case (Closer_Wait d)
  with inv st show ?thesis
    by (auto simp: timer_covers_active_def set_closer_pc_def Close_wait_def
        split: if_splits closer_pc.splits outcome.splits prod.splits)
next
  case (Stats_Load k)
  with inv step_Stats(2) [of env k s s'] st show ?thesis
    by (auto simp: timer_covers_active_def)
qed (use inv st in \<open>auto simp: timer_covers_active_def split: if_splits watcher_state.splits\<close>)

end
